theory Spec2Isabelle
  imports Main "HOL-Library.Word" "HOL-Library.Sublist"
begin

section \<open>Strings\<close>

text \<open>
  A JavaScript string is a sequence of 16-bit code units.  \<open>trim\<close> is
  \<open>String.prototype.trim\<close>: it strips the code units of the ECMAScript classes
  WhiteSpace and LineTerminator from both ends.  An empty string is the only falsy string,
  so the source's test \<open>!title\<close> is \<open>title = []\<close>.
\<close>

type_synonym js_string = "16 word list"

definition is_ws :: "16 word \<Rightarrow> bool" where
  "is_ws c \<longleftrightarrow>
     c = 0x9 \<or> c = 0xA \<or> c = 0xB \<or> c = 0xC \<or> c = 0xD \<or> c = 0x20 \<or> c = 0xA0 \<or>
     c = 0x1680 \<or> (0x2000 \<le> c \<and> c \<le> 0x200A) \<or> c = 0x2028 \<or> c = 0x2029 \<or>
     c = 0x202F \<or> c = 0x205F \<or> c = 0x3000 \<or> c = 0xFEFF"

definition trim :: "js_string \<Rightarrow> js_string" where
  "trim s = rev (dropWhile is_ws (rev (dropWhile is_ws s)))"

text \<open>
  \<open>/created_at/i.test(message)\<close>: an unanchored, case-insensitive search.  Without the
  \<open>u\<close> flag a code unit outside ASCII never canonicalises to an ASCII one, so against
  this ASCII pattern only the ASCII letters fold.
\<close>

definition canonicalize :: "16 word \<Rightarrow> 16 word" where
  "canonicalize c = (if 0x61 \<le> c \<and> c \<le> 0x7A then c - 0x20 else c)"

fun regex_test_ci :: "js_string \<Rightarrow> js_string \<Rightarrow> bool" where
  "regex_test_ci pat [] = (pat = [])"
| "regex_test_ci pat (c # cs) =
     (map canonicalize (take (length pat) (c # cs)) = map canonicalize pat
      \<or> regex_test_ci pat cs)"

definition str_created_at :: js_string where
  "str_created_at = [0x63, 0x72, 0x65, 0x61, 0x74, 0x65, 0x64, 0x5f, 0x61, 0x74]"

definition load_failed_text :: js_string where
  \<comment> \<open>the Russian literal of the load handler, "could not load the tasks from Supabase."\<close>
  "load_failed_text =
     [0x41d, 0x435, 0x20, 0x443, 0x434, 0x430, 0x43b, 0x43e, 0x441, 0x44c, 0x20, 0x437, 0x430,
      0x433, 0x440, 0x443, 0x437, 0x438, 0x442, 0x44c, 0x20, 0x437, 0x430, 0x434, 0x430, 0x447,
      0x438, 0x20, 0x438, 0x437, 0x20, 0x53, 0x75, 0x70, 0x61, 0x62, 0x61, 0x73, 0x65, 0x2e]"

section \<open>Data model\<close>

text \<open>
  A task is the object \<open>{ id, title, done }\<close>.  Local ids are numbers (\<open>Date.now()\<close>, and
  1 and 2 for the two default tasks); remote ids are whatever the backend assigns, a number
  or a string.  \<open>===\<close> on two ids is equality of these values.
\<close>

datatype ident = NumId int | StrId js_string

record task =
  task_id :: ident
  task_title :: js_string
  task_done :: bool

datatype filter_val = FILTERS_all | FILTERS_active | FILTERS_done

text \<open>A row as the backend returns it; the \<open>done\<close> column may be null.\<close>

record row =
  row_id :: ident
  row_title :: js_string
  row_done :: "bool option"

definition to_task :: "row \<Rightarrow> task" where
  \<comment> \<open>\<open>{ id: t.id, title: t.title, done: !!t.done }\<close>\<close>
  "to_task r = \<lparr>task_id = row_id r, task_title = row_title r, task_done = (row_done r = Some True)\<rparr>"

type_synonym user_id = js_string

datatype order_col = Order_created_at | Order_id

text \<open>The remote requests the handlers issue, as the query builder calls describe them.\<close>

datatype request =
    ReqInsert js_string user_id
  | ReqUpdateDone ident bool user_id
  | ReqUpdateTitle ident js_string user_id
  | ReqDelete ident user_id
  | ReqDeleteDone user_id
  | ReqSelect user_id order_col

text \<open>
  What an \<open>async\<close> handler does after its \<open>await\<close>, with the values its closure captured:
  \<open>KRollback prevTasks\<close> is the tail shared by \<open>toggleTask\<close>, \<open>removeTask\<close>,
  \<open>clearCompleted\<close> and \<open>saveEditing\<close>.
\<close>

datatype continuation =
    KAdd
  | KRollback "task list"
  | KLoad user_id
  | KLoadFallback

datatype response =
    Failure js_string
  | Inserted row
  | Completed
  | Selected "row list option"

subsection \<open>Component state\<close>

text \<open>
  \<open>local_state\<close> is the state of \<open>src/App.jsx\<close>; \<open>app_state\<close> extends it with what the
  Supabase-backed component adds: its further \<open>useState\<close> cells, the \<open>prevUserIdRef\<close> ref,
  the requests in flight, and the \<open>todo.tasks.v1\<close> entry of \<open>localStorage\<close> (\<open>None\<close> when
  the key is absent; the JSON text is kept parsed).  \<open>session\<close> holds the id of
  \<open>session.user\<close>.  \<open>setItem_ok\<close> is false when \<open>localStorage.setItem\<close> throws and
  \<open>getItem_ok\<close> is false when \<open>localStorage.getItem\<close> throws; the persistence effect
  catches and ignores the first, the session effect the second.  The cells \<open>email\<close>, \<open>authInfo\<close> and \<open>authError\<close>, which
  only \<open>sendMagicLink\<close> and \<open>signOut\<close> write, and the stored filter preference are left
  out: no handler of the task list reads them.

  A handler runs on the state of the latest render, so the \<open>tasks\<close> of its closure and
  the \<open>prev\<close> of its functional updates are both the task list of the state it is
  applied to; what it does after an \<open>await\<close> runs on the state of that later moment.
\<close>

record local_state =
  text_st :: js_string
  tasks :: "task list"
  filter_st :: filter_val
  editingId :: "ident option"
  editingText :: js_string

record app_state = local_state +
  isSupabaseReady :: bool
  remoteError :: js_string
  remoteLoading :: bool
  session :: "user_id option"
  prevUserIdRef :: "user_id option"
  pending :: "(request \<times> continuation) list"
  storage :: "task list option"
  setItem_ok :: bool
  getItem_ok :: bool

section \<open>src/App.jsx\<close>

definition filteredTasks_local :: "local_state \<Rightarrow> task list" where
  "filteredTasks_local s =
     (if filter_st s = FILTERS_active then filter (\<lambda>t. \<not> task_done t) (tasks s)
      else if filter_st s = FILTERS_done then filter (\<lambda>t. task_done t) (tasks s)
      else tasks s)"

definition addTask_local :: "int \<Rightarrow> local_state \<Rightarrow> local_state" where
  \<comment> \<open>the first argument is the value of \<open>Date.now()\<close>\<close>
  "addTask_local now s =
     (let title = trim (text_st s) in
      if title = [] then s
      else s\<lparr>tasks := \<lparr>task_id = NumId now, task_title = title, task_done = False\<rparr> # tasks s,
             text_st := []\<rparr>)"

definition toggleTask_local :: "ident \<Rightarrow> local_state \<Rightarrow> local_state" where
  "toggleTask_local i s =
     s\<lparr>tasks := map (\<lambda>t. if task_id t = i then t\<lparr>task_done := \<not> task_done t\<rparr> else t) (tasks s)\<rparr>"

definition removeTask_local :: "ident \<Rightarrow> local_state \<Rightarrow> local_state" where
  "removeTask_local i s = s\<lparr>tasks := filter (\<lambda>t. task_id t \<noteq> i) (tasks s)\<rparr>"

definition clearCompleted_local :: "local_state \<Rightarrow> local_state" where
  "clearCompleted_local s = s\<lparr>tasks := filter (\<lambda>t. \<not> task_done t) (tasks s)\<rparr>"

definition startEditing_local :: "task \<Rightarrow> local_state \<Rightarrow> local_state" where
  "startEditing_local t s = s\<lparr>editingId := Some (task_id t), editingText := task_title t\<rparr>"

definition cancelEditing_local :: "local_state \<Rightarrow> local_state" where
  "cancelEditing_local s = s\<lparr>editingId := None, editingText := []\<rparr>"

definition saveEditing_local :: "ident \<Rightarrow> local_state \<Rightarrow> local_state" where
  "saveEditing_local i s =
     (let title = trim (editingText s) in
      if title = [] then cancelEditing_local s
      else cancelEditing_local
             (s\<lparr>tasks := map (\<lambda>t. if task_id t = i then t\<lparr>task_title := title\<rparr> else t) (tasks s)\<rparr>))"

section \<open>The Supabase-backed component\<close>

subsection \<open>Derived values and handlers\<close>

definition auth_user :: "app_state \<Rightarrow> user_id option" where
  \<comment> \<open>the guard \<open>isSupabaseReady && user\<close>, giving \<open>user.id\<close> when it passes\<close>
  "auth_user s = (if isSupabaseReady s then session s else None)"

definition filteredTasks :: "app_state \<Rightarrow> task list" where
  "filteredTasks s =
     (if filter_st s = FILTERS_active then filter (\<lambda>t. \<not> task_done t) (tasks s)
      else if filter_st s = FILTERS_done then filter (\<lambda>t. task_done t) (tasks s)
      else tasks s)"

definition issue :: "request \<Rightarrow> continuation \<Rightarrow> app_state \<Rightarrow> app_state" where
  \<comment> \<open>an \<open>await\<close> on a remote call: the request is in flight, the rest of the handler waits\<close>
  "issue r k s = s\<lparr>pending := pending s @ [(r, k)]\<rparr>"

definition addTask :: "int \<Rightarrow> app_state \<Rightarrow> app_state" where
  \<comment> \<open>the first argument is the value of \<open>Date.now()\<close>\<close>
  "addTask now s =
     (let title = trim (text_st s) in
      if title = [] then s
      else case auth_user s of
        Some uid \<Rightarrow> issue (ReqInsert title uid) KAdd (s\<lparr>remoteError := []\<rparr>)
      | None \<Rightarrow>
          s\<lparr>tasks := \<lparr>task_id = NumId now, task_title = title, task_done = False\<rparr> # tasks s,
            text_st := []\<rparr>)"

definition toggleTask :: "ident \<Rightarrow> app_state \<Rightarrow> app_state" where
  "toggleTask i s =
     (case find (\<lambda>t. task_id t = i) (tasks s) of
        None \<Rightarrow> s
      | Some current \<Rightarrow>
          (let nextDone = \<not> task_done current;
               s' = s\<lparr>tasks := map (\<lambda>t. if task_id t = i then t\<lparr>task_done := nextDone\<rparr> else t)
                                 (tasks s)\<rparr>
           in case auth_user s of
                Some uid \<Rightarrow>
                  issue (ReqUpdateDone i nextDone uid) (KRollback (tasks s)) (s'\<lparr>remoteError := []\<rparr>)
              | None \<Rightarrow> s'))"

definition removeTask :: "ident \<Rightarrow> app_state \<Rightarrow> app_state" where
  "removeTask i s =
     (let s' = s\<lparr>tasks := filter (\<lambda>t. task_id t \<noteq> i) (tasks s)\<rparr>
      in case auth_user s of
           Some uid \<Rightarrow> issue (ReqDelete i uid) (KRollback (tasks s)) (s'\<lparr>remoteError := []\<rparr>)
         | None \<Rightarrow> s')"

definition clearCompleted :: "app_state \<Rightarrow> app_state" where
  "clearCompleted s =
     (let s' = s\<lparr>tasks := filter (\<lambda>t. \<not> task_done t) (tasks s)\<rparr>
      in case auth_user s of
           Some uid \<Rightarrow> issue (ReqDeleteDone uid) (KRollback (tasks s)) (s'\<lparr>remoteError := []\<rparr>)
         | None \<Rightarrow> s')"

definition startEditing :: "task \<Rightarrow> app_state \<Rightarrow> app_state" where
  "startEditing t s = s\<lparr>editingId := Some (task_id t), editingText := task_title t\<rparr>"

definition cancelEditing :: "app_state \<Rightarrow> app_state" where
  "cancelEditing s = s\<lparr>editingId := None, editingText := []\<rparr>"

definition saveEditing :: "ident \<Rightarrow> app_state \<Rightarrow> app_state" where
  "saveEditing i s =
     (let title = trim (editingText s) in
      if title = [] then cancelEditing s
      else
        (let s' = s\<lparr>tasks := map (\<lambda>t. if task_id t = i then t\<lparr>task_title := title\<rparr> else t)
                                (tasks s)\<rparr>
         in case auth_user s of
              Some uid \<Rightarrow>
                issue (ReqUpdateTitle i title uid) (KRollback (tasks s))
                  (cancelEditing (s'\<lparr>remoteError := []\<rparr>))
            | None \<Rightarrow> cancelEditing s'))"

subsection \<open>Completion of a remote call\<close>

definition load_failed :: "js_string \<Rightarrow> app_state \<Rightarrow> app_state" where
  \<comment> \<open>the \<open>catch\<close> and \<open>finally\<close> of the load: \<open>e?.message || "..."\<close>\<close>
  "load_failed msg s =
     s\<lparr>remoteError := (if msg = [] then load_failed_text else msg), remoteLoading := False\<rparr>"

definition load_ok :: "row list option \<Rightarrow> app_state \<Rightarrow> app_state" where
  \<comment> \<open>\<open>setTasks((res.data ?? []).map(...))\<close>, the editing state reset, then \<open>finally\<close>\<close>
  "load_ok d s =
     s\<lparr>tasks := map to_task (case d of None \<Rightarrow> [] | Some rs \<Rightarrow> rs),
       editingId := None, editingText := [], remoteLoading := False\<rparr>"

fun resume :: "continuation \<Rightarrow> response \<Rightarrow> app_state \<Rightarrow> app_state" where
  "resume KAdd (Failure msg) s = s\<lparr>remoteError := msg\<rparr>"
| "resume KAdd (Inserted r) s = s\<lparr>tasks := to_task r # tasks s, text_st := []\<rparr>"
| "resume (KRollback prevTasks) (Failure msg) s = s\<lparr>tasks := prevTasks, remoteError := msg\<rparr>"
| "resume (KRollback prevTasks) Completed s = s"
| "resume (KLoad uid) (Failure msg) s =
     (if regex_test_ci str_created_at msg then issue (ReqSelect uid Order_id) KLoadFallback s
      else load_failed msg s)"
| "resume (KLoad uid) (Selected d) s = load_ok d s"
| "resume KLoadFallback (Failure msg) s = load_failed msg s"
| "resume KLoadFallback (Selected d) s = load_ok d s"
| "resume _ _ s = s"

definition resolve :: "nat \<Rightarrow> response \<Rightarrow> app_state \<Rightarrow> app_state" where
  \<comment> \<open>the \<open>n\<close>-th request in flight completes with the given response\<close>
  "resolve n resp s =
     (if n < length (pending s)
      then resume (snd (pending s ! n)) resp
             (s\<lparr>pending := take n (pending s) @ drop (Suc n) (pending s)\<rparr>)
      else s)"

subsection \<open>Effects\<close>

text \<open>
  After a render React runs the effects whose dependencies changed, in the order in which
  the component declares them: the persistence effect (dependencies \<open>[tasks, user]\<close>) is
  declared before the session effect (dependencies \<open>[isSupabaseReady, user?.id]\<close>).
  A \<open>setTasks\<close> made by the session effect causes one more render, after which the
  persistence effect runs again.
\<close>

definition persist_effect :: "app_state \<Rightarrow> app_state" where
  "persist_effect s =
     (case session s of
        Some u \<Rightarrow> s
      | None \<Rightarrow> if setItem_ok s then s\<lparr>storage := Some (tasks s)\<rparr> else s)"

definition truthy :: "user_id option \<Rightarrow> bool" where
  "truthy u = (case u of None \<Rightarrow> False | Some v \<Rightarrow> v \<noteq> [])"

definition restore_local :: "app_state \<Rightarrow> app_state" where
  \<comment> \<open>\<open>const raw = localStorage.getItem(STORAGE_KEY); if (raw) setTasks(JSON.parse(raw))\<close>\<close>
  "restore_local s =
     (if getItem_ok s then (case storage s of Some ts \<Rightarrow> s\<lparr>tasks := ts\<rparr> | None \<Rightarrow> s) else s)"

definition session_effect :: "app_state \<Rightarrow> app_state" where
  "session_effect s =
     (if \<not> isSupabaseReady s then s
      else
        (let prevUserId = prevUserIdRef s;
             nextUserId = session s;
             s1 = s\<lparr>prevUserIdRef := nextUserId\<rparr>
         in if truthy prevUserId \<and> \<not> truthy nextUserId
            then (restore_local s1)\<lparr>remoteError := [], remoteLoading := False\<rparr>
            else case nextUserId of
                   None \<Rightarrow> s1
                 | Some uid \<Rightarrow>
                     if uid = [] then s1
                     else issue (ReqSelect uid Order_created_at) (KLoad uid)
                            (s1\<lparr>remoteError := [], remoteLoading := True\<rparr>)))"

definition commit :: "app_state \<Rightarrow> app_state \<Rightarrow> app_state" where
  \<comment> \<open>the effects after the render that takes the component from \<open>old\<close> to \<open>new\<close>\<close>
  "commit old new =
     (let s1 = (if tasks new \<noteq> tasks old \<or> session new \<noteq> session old
                then persist_effect new else new);
          s2 = (if session s1 \<noteq> session old then session_effect s1 else s1)
      in if tasks s2 \<noteq> tasks s1 then persist_effect s2 else s2)"

subsection \<open>Events\<close>

datatype event =
    SetText js_string
  | AddTask int
  | ToggleTask ident
  | RemoveTask ident
  | ClearCompleted
  | StartEditing task
  | SetEditingText js_string
  | CancelEditing
  | SaveEditing ident
  | SetFilter filter_val
  | AuthChange "user_id option"
  | Resolve nat response

fun handle :: "event \<Rightarrow> app_state \<Rightarrow> app_state" where
  "handle (SetText v) s = s\<lparr>text_st := v\<rparr>"
| "handle (AddTask now) s = addTask now s"
| "handle (ToggleTask i) s = toggleTask i s"
| "handle (RemoveTask i) s = removeTask i s"
| "handle ClearCompleted s = clearCompleted s"
| "handle (StartEditing t) s = startEditing t s"
| "handle (SetEditingText v) s = s\<lparr>editingText := v\<rparr>"
| "handle CancelEditing s = cancelEditing s"
| "handle (SaveEditing i) s = saveEditing i s"
| "handle (SetFilter f) s = s\<lparr>filter_st := f\<rparr>"
| "handle (AuthChange u) s = (if isSupabaseReady s then s\<lparr>session := u\<rparr> else s)"
| "handle (Resolve n resp) s = resolve n resp s"

definition step :: "event \<Rightarrow> app_state \<Rightarrow> app_state" where
  "step e s = commit s (handle e s)"

fun run :: "event list \<Rightarrow> app_state \<Rightarrow> app_state" where
  "run [] s = s"
| "run (e # es) s = run es (step e s)"

subsection \<open>The mounted component\<close>

definition default_tasks :: "task list" where
  "default_tasks =
     [\<lparr>task_id = NumId 1,
       task_title = [0x421, 0x434, 0x435, 0x43b, 0x430, 0x442, 0x44c, 0x20, 0x43f, 0x435, 0x440,
                     0x432, 0x44b, 0x439, 0x20, 0x432, 0x430, 0x439, 0x431, 0x2d, 0x43f, 0x440,
                     0x43e, 0x435, 0x43a, 0x442, 0x20, 0xd83d, 0xde0e],
       task_done = False\<rparr>,
      \<lparr>task_id = NumId 2,
       task_title = [0x414, 0x43e, 0x431, 0x430, 0x432, 0x438, 0x442, 0x44c, 0x20, 0x437, 0x430,
                     0x434, 0x430, 0x447, 0x443],
       task_done = False\<rparr>]"

definition mounted :: "bool \<Rightarrow> task list option \<Rightarrow> filter_val \<Rightarrow> app_state" where
  \<comment> \<open>the state after the first render and its effects, with a working \<open>localStorage\<close>\<close>
  "mounted ready stored f =
     persist_effect
       \<lparr>text_st = [], tasks = (case stored of Some ts \<Rightarrow> ts | None \<Rightarrow> default_tasks),
        filter_st = f, editingId = None, editingText = [],
        isSupabaseReady = ready, remoteError = [], remoteLoading = False, session = None,
        prevUserIdRef = None, pending = [], storage = stored, setItem_ok = True,
        getItem_ok = True\<rparr>"

section \<open>Predicates of the specification\<close>

text \<open>
  The task lists a state holds: the displayed list, the stored snapshot, and the
  \<open>prevTasks\<close> that the rollbacks in flight would put back.
\<close>

fun snapshot_of :: "continuation \<Rightarrow> task list" where
  "snapshot_of (KRollback prevTasks) = prevTasks"
| "snapshot_of _ = []"

definition held_lists :: "app_state \<Rightarrow> task list list" where
  "held_lists s =
     tasks s # (case storage s of Some ts \<Rightarrow> [ts] | None \<Rightarrow> [])
       @ map (\<lambda>p. snapshot_of (snd p)) (pending s)"

definition unique_ids :: "task list \<Rightarrow> bool" where
  "unique_ids ts = distinct (map task_id ts)"

definition ids_inv :: "app_state \<Rightarrow> bool" where
  "ids_inv s = list_all unique_ids (held_lists s)"

text \<open>
  What the uniqueness of ids needs from outside the component: the clock reading or the
  backend's id for a new task is not in the list yet, and the rows of a load have
  pairwise different ids.
\<close>

fun supplies_fresh_id :: "event \<Rightarrow> app_state \<Rightarrow> bool" where
  "supplies_fresh_id (AddTask now) s = (NumId now \<notin> set (map task_id (tasks s)))"
| "supplies_fresh_id (Resolve n (Inserted r)) s = (row_id r \<notin> set (map task_id (tasks s)))"
| "supplies_fresh_id (Resolve n (Selected d)) s =
     distinct (map row_id (case d of None \<Rightarrow> [] | Some rs \<Rightarrow> rs))"
| "supplies_fresh_id _ s = True"

fun fresh_run :: "event list \<Rightarrow> app_state \<Rightarrow> bool" where
  "fresh_run [] s = True"
| "fresh_run (e # es) s = (supplies_fresh_id e s \<and> fresh_run es (step e s))"

definition titled :: "task list \<Rightarrow> bool" where
  \<comment> \<open>no title is empty or made of white space only\<close>
  "titled ts = list_all (\<lambda>t. trim (task_title t) \<noteq> []) ts"

definition title_inv :: "app_state \<Rightarrow> bool" where
  "title_inv s = list_all titled (held_lists s)"

fun supplies_titled :: "event \<Rightarrow> bool" where
  "supplies_titled (Resolve n (Inserted r)) = (trim (row_title r) \<noteq> [])"
| "supplies_titled (Resolve n (Selected d)) =
     list_all (\<lambda>r. trim (row_title r) \<noteq> []) (case d of None \<Rightarrow> [] | Some rs \<Rightarrow> rs)"
| "supplies_titled _ = True"

text \<open>
  A handler followed at once by the completion, with the given response, of the request
  it issued; a handler that issued none is followed by nothing.
\<close>

definition then_response :: "response \<Rightarrow> (app_state \<Rightarrow> app_state) \<Rightarrow> app_state \<Rightarrow> app_state" where
  "then_response resp h s = resolve (length (pending s)) resp (h s)"

definition toggled_only :: "ident \<Rightarrow> task list \<Rightarrow> task list \<Rightarrow> bool" where
  \<comment> \<open>position by position: same id, same title, and the same task unless its id is \<open>i\<close>\<close>
  "toggled_only i ts ts' =
     list_all2 (\<lambda>t t'. task_id t' = task_id t \<and> task_title t' = task_title t \<and>
                         (task_id t \<noteq> i \<longrightarrow> t' = t)) ts ts'"

subsection \<open>Example states\<close>

definition task_A :: task where
  "task_A = \<lparr>task_id = NumId 1, task_title = [0x41], task_done = False\<rparr>"

definition task_B :: task where
  "task_B = \<lparr>task_id = NumId 2, task_title = [0x42], task_done = True\<rparr>"

definition row_C :: row where
  "row_C = \<lparr>row_id = NumId 7, row_title = [0x43], row_done = Some True\<rparr>"

definition user_u :: user_id where
  "user_u = [0x75]"

definition task_A' :: task where
  \<comment> \<open>a completed task with the id of \<open>task_A\<close>\<close>
  "task_A' = \<lparr>task_id = NumId 1, task_title = [0x42], task_done = True\<rparr>"

definition anon_AB :: app_state where
  \<comment> \<open>mounted with tasks A and B in \<open>localStorage\<close>, nobody signed in\<close>
  "anon_AB = mounted True (Some [task_A, task_B]) FILTERS_all"

definition auth_AB :: app_state where
  \<comment> \<open>signed in as \<open>u\<close>, the load returned A and B, and "x" is typed in both inputs\<close>
  "auth_AB =
     run [AuthChange (Some user_u),
          Resolve 0 (Selected (Some [\<lparr>row_id = NumId 1, row_title = [0x41], row_done = Some False\<rparr>,
                                     \<lparr>row_id = NumId 2, row_title = [0x42], row_done = Some True\<rparr>])),
          SetText [0x78], SetEditingText [0x78]]
       (mounted True None FILTERS_all)"

section \<open>Basic facts about the handlers\<close>

lemmas run_defs = step_def commit_def persist_effect_def session_effect_def truthy_def
  Let_def restore_local_def issue_def resolve_def load_ok_def load_failed_def to_task_def
  mounted_def

lemma anon_AB_eq:
  "anon_AB =
     \<lparr>text_st = [], tasks = [task_A, task_B], filter_st = FILTERS_all, editingId = None,
      editingText = [], isSupabaseReady = True, remoteError = [], remoteLoading = False,
      session = None, prevUserIdRef = None, pending = [], storage = Some [task_A, task_B],
      setItem_ok = True, getItem_ok = True\<rparr>"
  by (simp add: anon_AB_def mounted_def persist_effect_def)

lemma auth_AB_eq:
  "auth_AB =
     \<lparr>text_st = [0x78], tasks = [task_A, task_B], filter_st = FILTERS_all, editingId = None,
      editingText = [0x78], isSupabaseReady = True, remoteError = [], remoteLoading = False,
      session = Some user_u, prevUserIdRef = Some user_u, pending = [],
      storage = Some default_tasks, setItem_ok = True, getItem_ok = True\<rparr>"
  by (simp add: auth_AB_def run_defs user_u_def task_A_def task_B_def)

lemma trim_x: "trim [0x78] = [0x78]"
  by (simp add: trim_def is_ws_def)

lemma tasks_issue [simp]: "tasks (issue r k s) = tasks s"
  by (simp add: issue_def)

lemma pending_issue [simp]: "pending (issue r k s) = pending s @ [(r, k)]"
  by (simp add: issue_def)

lemma tasks_toggleTask:
  "tasks (toggleTask i s) =
     (case find (\<lambda>t. task_id t = i) (tasks s) of
        None \<Rightarrow> tasks s
      | Some c \<Rightarrow> map (\<lambda>t. if task_id t = i then t\<lparr>task_done := \<not> task_done c\<rparr> else t) (tasks s))"
  by (simp add: toggleTask_def Let_def split: option.splits)

lemma tasks_removeTask: "tasks (removeTask i s) = filter (\<lambda>t. task_id t \<noteq> i) (tasks s)"
  by (simp add: removeTask_def Let_def split: option.splits)

lemma tasks_clearCompleted: "tasks (clearCompleted s) = filter (\<lambda>t. \<not> task_done t) (tasks s)"
  by (simp add: clearCompleted_def Let_def split: option.splits)

lemma tasks_saveEditing:
  "tasks (saveEditing i s) =
     (if trim (editingText s) = [] then tasks s
      else map (\<lambda>t. if task_id t = i then t\<lparr>task_title := trim (editingText s)\<rparr> else t) (tasks s))"
  by (simp add: saveEditing_def cancelEditing_def Let_def split: option.splits)

lemma tasks_addTask:
  "tasks (addTask now s) =
     (if trim (text_st s) = [] \<or> auth_user s \<noteq> None then tasks s
      else \<lparr>task_id = NumId now, task_title = trim (text_st s), task_done = False\<rparr> # tasks s)"
  by (simp add: addTask_def Let_def split: option.splits)

lemma pending_toggleTask:
  "pending (toggleTask i s) =
     (case find (\<lambda>t. task_id t = i) (tasks s) of
        None \<Rightarrow> pending s
      | Some c \<Rightarrow>
          (case auth_user s of
             None \<Rightarrow> pending s
           | Some uid \<Rightarrow>
               pending s @ [(ReqUpdateDone i (\<not> task_done c) uid, KRollback (tasks s))]))"
  by (simp add: toggleTask_def Let_def split: option.splits)

lemma pending_removeTask:
  "pending (removeTask i s) =
     (case auth_user s of
        Some uid \<Rightarrow> pending s @ [(ReqDelete i uid, KRollback (tasks s))]
      | None \<Rightarrow> pending s)"
  by (simp add: removeTask_def Let_def split: option.splits)

lemma pending_clearCompleted:
  "pending (clearCompleted s) =
     (case auth_user s of
        Some uid \<Rightarrow> pending s @ [(ReqDeleteDone uid, KRollback (tasks s))]
      | None \<Rightarrow> pending s)"
  by (simp add: clearCompleted_def Let_def split: option.splits)

lemma pending_saveEditing:
  "pending (saveEditing i s) =
     (if trim (editingText s) = [] then pending s
      else case auth_user s of
        Some uid \<Rightarrow>
          pending s @ [(ReqUpdateTitle i (trim (editingText s)) uid, KRollback (tasks s))]
      | None \<Rightarrow> pending s)"
  by (simp add: saveEditing_def cancelEditing_def Let_def split: option.splits)

lemma pending_addTask:
  "pending (addTask now s) =
     (if trim (text_st s) = [] then pending s
      else case auth_user s of
        Some uid \<Rightarrow> pending s @ [(ReqInsert (trim (text_st s)) uid, KAdd)]
      | None \<Rightarrow> pending s)"
  by (simp add: addTask_def Let_def split: option.splits)

lemma tasks_resume_KRollback:
  "tasks (resume (KRollback p) resp s) = (case resp of Failure m \<Rightarrow> p | _ \<Rightarrow> tasks s)"
  by (cases resp) simp_all

lemma tasks_resolve_unissued:
  "length (pending s) \<le> n \<Longrightarrow> tasks (resolve n resp s) = tasks s"
  by (simp add: resolve_def)

lemma tasks_resolve_issued:
  "pending s = ps @ [(r, k)] \<Longrightarrow>
   tasks (resolve (length ps) resp s) = tasks (resume k resp (s\<lparr>pending := ps\<rparr>))"
  by (simp add: resolve_def)

lemma find_id_None: "i \<notin> task_id ` set ts \<Longrightarrow> find (\<lambda>t. task_id t = i) ts = None"
  by (induction ts) auto

lemma map_absent:
  "i \<notin> task_id ` set ts \<Longrightarrow> map (\<lambda>t. if task_id t = i then f t else t) ts = ts"
  by (induction ts) auto

lemma filter_absent: "i \<notin> task_id ` set ts \<Longrightarrow> filter (\<lambda>t. task_id t \<noteq> i) ts = ts"
  by (induction ts) auto

section \<open>Filtering\<close>

text \<open>
  Claim C2.  Under the filter \<open>active\<close> the derived list holds no completed task (it holds
  exactly the tasks that are not done), under \<open>done\<close> it holds no task that is not done,
  and under \<open>all\<close> it is the task list itself; in every case it is a subsequence of the
  task list.  \<open>filteredTasks\<close> is a function of the state that returns a list and no
  state: the task list of the component is not touched.  Both components.
\<close>

theorem filteredTasks_by_filter:
  "(filter_st s = FILTERS_active \<longrightarrow>
      (\<forall>t \<in> set (filteredTasks s). \<not> task_done t) \<and>
      set (filteredTasks s) = {t \<in> set (tasks s). \<not> task_done t}) \<and>
   (filter_st s = FILTERS_done \<longrightarrow>
      (\<forall>t \<in> set (filteredTasks s). task_done t) \<and>
      set (filteredTasks s) = {t \<in> set (tasks s). task_done t}) \<and>
   (filter_st s = FILTERS_all \<longrightarrow> filteredTasks s = tasks s) \<and>
   subseq (filteredTasks s) (tasks s) \<and>
   (filter_st l = FILTERS_active \<longrightarrow>
      (\<forall>t \<in> set (filteredTasks_local l). \<not> task_done t) \<and>
      set (filteredTasks_local l) = {t \<in> set (tasks l). \<not> task_done t}) \<and>
   (filter_st l = FILTERS_done \<longrightarrow>
      (\<forall>t \<in> set (filteredTasks_local l). task_done t) \<and>
      set (filteredTasks_local l) = {t \<in> set (tasks l). task_done t}) \<and>
   (filter_st l = FILTERS_all \<longrightarrow> filteredTasks_local l = tasks l) \<and>
   subseq (filteredTasks_local l) (tasks l)"
  by (auto simp: filteredTasks_def filteredTasks_local_def)

theorem filteredTasks_by_filter_witness:
  "filter_st (anon_AB\<lparr>filter_st := FILTERS_done\<rparr>) = FILTERS_done \<and>
   list_all task_done (filteredTasks (anon_AB\<lparr>filter_st := FILTERS_done\<rparr>)) \<and>
   filteredTasks (anon_AB\<lparr>filter_st := FILTERS_done\<rparr>) = [task_B] \<and>
   filter_st (local_state.truncate (anon_AB\<lparr>filter_st := FILTERS_active\<rparr>)) = FILTERS_active \<and>
   list_all (\<lambda>t. \<not> task_done t)
     (filteredTasks_local (local_state.truncate (anon_AB\<lparr>filter_st := FILTERS_active\<rparr>)))"
  using filteredTasks_by_filter
          [of "anon_AB\<lparr>filter_st := FILTERS_done\<rparr>"
              "local_state.truncate (anon_AB\<lparr>filter_st := FILTERS_active\<rparr>)"]
  by (simp add: anon_AB_eq filteredTasks_def filteredTasks_local_def local_state.truncate_def
        task_A_def task_B_def list_all_iff)

section \<open>Clearing the completed tasks\<close>

text \<open>
  Claim C6.  \<open>clearCompleted\<close> leaves exactly the tasks that are not done, each as it was
  and in the original order, and none that is done; signed in, the list stays so when the
  delete request completes.  Both components.
\<close>

theorem clearCompleted_removes_done:
  "tasks (clearCompleted s) = filter (\<lambda>t. \<not> task_done t) (tasks s) \<and>
   (\<forall>t \<in> set (tasks (clearCompleted s)). \<not> task_done t) \<and>
   (\<forall>t \<in> set (tasks s). \<not> task_done t \<longrightarrow> t \<in> set (tasks (clearCompleted s))) \<and>
   subseq (tasks (clearCompleted s)) (tasks s) \<and>
   tasks (resolve (length (pending s)) Completed (clearCompleted s)) = tasks (clearCompleted s) \<and>
   tasks (clearCompleted_local l) = filter (\<lambda>t. \<not> task_done t) (tasks l) \<and>
   (\<forall>t \<in> set (tasks (clearCompleted_local l)). \<not> task_done t) \<and>
   (\<forall>t \<in> set (tasks l). \<not> task_done t \<longrightarrow> t \<in> set (tasks (clearCompleted_local l))) \<and>
   subseq (tasks (clearCompleted_local l)) (tasks l)"
proof -
  have "tasks (resolve (length (pending s)) Completed (clearCompleted s)) = tasks (clearCompleted s)"
  proof (cases "auth_user s")
    case None
    then show ?thesis
      by (simp add: tasks_resolve_unissued pending_clearCompleted)
  next
    case (Some uid)
    then have "pending (clearCompleted s) = pending s @ [(ReqDeleteDone uid, KRollback (tasks s))]"
      by (simp add: pending_clearCompleted)
    then show ?thesis
      by (simp add: tasks_resolve_issued)
  qed
  then show ?thesis
    by (simp add: tasks_clearCompleted clearCompleted_local_def)
qed

theorem clearCompleted_removes_done_witness:
  "tasks (clearCompleted auth_AB) = [task_A] \<and>
   list_all (\<lambda>t. \<not> task_done t) (tasks (clearCompleted auth_AB)) \<and>
   tasks (resolve (length (pending auth_AB)) Completed (clearCompleted auth_AB)) = [task_A] \<and>
   tasks (clearCompleted_local (local_state.truncate anon_AB)) = [task_A]"
  using clearCompleted_removes_done [of auth_AB "local_state.truncate anon_AB"]
  by (simp add: auth_AB_eq anon_AB_eq local_state.truncate_def task_A_def task_B_def)

section \<open>Toggling\<close>

lemma then_response_unissued:
  "pending (h s) = pending s \<Longrightarrow> then_response resp h s = h s"
  by (simp add: then_response_def resolve_def)

lemma then_response_issued:
  "pending (h s) = pending s @ [(r, k)] \<Longrightarrow>
   then_response resp h s = resume k resp ((h s)\<lparr>pending := pending s\<rparr>)"
  by (simp add: then_response_def resolve_def)

lemma tasks_then_response_toggleTask:
  "tasks (then_response resp (toggleTask i) s) =
     (case resp of
        Failure m \<Rightarrow>
          (if auth_user s \<noteq> None \<and> find (\<lambda>t. task_id t = i) (tasks s) \<noteq> None
           then tasks s else tasks (toggleTask i s))
      | _ \<Rightarrow> tasks (toggleTask i s))"
proof (cases "pending (toggleTask i s) = pending s")
  case True
  then have "auth_user s = None \<or> find (\<lambda>t. task_id t = i) (tasks s) = None"
    by (auto simp: pending_toggleTask split: option.splits)
  with True show ?thesis
    by (auto simp: then_response_unissued split: response.splits)
next
  case False
  then obtain c uid where c: "find (\<lambda>t. task_id t = i) (tasks s) = Some c"
    and uid: "auth_user s = Some uid"
    by (auto simp: pending_toggleTask split: option.splits)
  then have "pending (toggleTask i s) =
      pending s @ [(ReqUpdateDone i (\<not> task_done c) uid, KRollback (tasks s))]"
    by (simp add: pending_toggleTask)
  then show ?thesis
    using c uid by (simp add: then_response_issued tasks_resume_KRollback split: response.splits)
qed

lemma pending_then_response_toggleTask:
  "pending (then_response Completed (toggleTask i) s) = pending s"
proof (cases "pending (toggleTask i s) = pending s")
  case True
  then show ?thesis by (simp add: then_response_unissued)
next
  case False
  then obtain c uid where "find (\<lambda>t. task_id t = i) (tasks s) = Some c"
    and "auth_user s = Some uid"
    by (auto simp: pending_toggleTask split: option.splits)
  then have "pending (toggleTask i s) =
      pending s @ [(ReqUpdateDone i (\<not> task_done c) uid, KRollback (tasks s))]"
    by (simp add: pending_toggleTask)
  then show ?thesis by (simp add: then_response_issued)
qed

lemma toggled_only_refl: "toggled_only i ts ts"
  by (simp add: toggled_only_def list_all2_same)

lemma toggled_only_map: "toggled_only i ts (map (\<lambda>t. if task_id t = i then t\<lparr>task_done := d t\<rparr> else t) ts)"
  by (simp add: toggled_only_def list_all2_map2 list_all2_same)

lemma toggled_only_toggleTask: "toggled_only i (tasks s) (tasks (toggleTask i s))"
  by (auto simp: tasks_toggleTask toggled_only_refl toggled_only_map split: option.splits)

text \<open>
  Claim C9.  \<open>toggleTask\<close> keeps the length and the order of the list, the id and the
  title of every task, and every task whose id is not the one toggled; so does the
  operation together with the completion of its request, whatever the response.  Both
  components.
\<close>

theorem toggleTask_changes_only_done:
  "toggled_only i (tasks s) (tasks (toggleTask i s)) \<and>
   toggled_only i (tasks s) (tasks (then_response resp (toggleTask i) s)) \<and>
   toggled_only i (tasks l) (tasks (toggleTask_local i l)) \<and>
   length (tasks (toggleTask i s)) = length (tasks s) \<and>
   map task_id (tasks (toggleTask i s)) = map task_id (tasks s) \<and>
   map task_title (tasks (toggleTask i s)) = map task_title (tasks s) \<and>
   (\<forall>n < length (tasks s).
      task_id (tasks s ! n) \<noteq> i \<longrightarrow> tasks (toggleTask i s) ! n = tasks s ! n) \<and>
   length (tasks (toggleTask_local i l)) = length (tasks l) \<and>
   map task_id (tasks (toggleTask_local i l)) = map task_id (tasks l) \<and>
   map task_title (tasks (toggleTask_local i l)) = map task_title (tasks l) \<and>
   (\<forall>n < length (tasks l).
      task_id (tasks l ! n) \<noteq> i \<longrightarrow> tasks (toggleTask_local i l) ! n = tasks l ! n)"
proof -
  have a: "toggled_only i (tasks s) (tasks (toggleTask i s))"
    by (rule toggled_only_toggleTask)
  have b: "toggled_only i (tasks s) (tasks (then_response resp (toggleTask i) s))"
    by (simp add: tasks_then_response_toggleTask toggled_only_refl toggled_only_toggleTask
          split: response.splits)
  have c: "toggled_only i (tasks l) (tasks (toggleTask_local i l))"
    by (simp add: toggleTask_local_def toggled_only_map)
  have d: "length ts' = length ts \<and> map task_id ts' = map task_id ts \<and>
      map task_title ts' = map task_title ts \<and>
      (\<forall>n < length ts. task_id (ts ! n) \<noteq> i \<longrightarrow> ts' ! n = ts ! n)"
    if "toggled_only i ts ts'" for ts ts'
  proof -
    from that have len: "length ts = length ts'"
      and nth: "\<And>n. n < length ts \<Longrightarrow>
        task_id (ts' ! n) = task_id (ts ! n) \<and> task_title (ts' ! n) = task_title (ts ! n) \<and>
        (task_id (ts ! n) \<noteq> i \<longrightarrow> ts' ! n = ts ! n)"
      by (auto simp: toggled_only_def list_all2_conv_all_nth)
    show ?thesis
      using len nth by (auto intro!: nth_equalityI)
  qed
  from a b c d [OF a] d [OF c] show ?thesis
    by blast
qed

theorem toggleTask_changes_only_done_witness:
  "tasks (toggleTask (NumId 1) auth_AB) = [task_A\<lparr>task_done := True\<rparr>, task_B] \<and>
   toggled_only (NumId 1) (tasks auth_AB) (tasks (toggleTask (NumId 1) auth_AB)) \<and>
   (1::nat) < length (tasks auth_AB) \<and> task_id (tasks auth_AB ! 1) \<noteq> NumId 1 \<and>
   tasks (toggleTask (NumId 1) auth_AB) ! 1 = tasks auth_AB ! 1"
  using toggleTask_changes_only_done [of "NumId 1" auth_AB Completed "local_state.truncate anon_AB"]
  by (simp add: auth_AB_eq tasks_toggleTask task_A_def task_B_def)

section \<open>Operations on an id that is not in the list\<close>

text \<open>
  Claim C10.  When no task of the list has the id, \<open>toggleTask\<close>, \<open>removeTask\<close> and
  \<open>saveEditing\<close> leave the task list as it is, also once their request (if one was
  issued) has completed, with whatever response.  Both components.
\<close>

theorem absent_id_leaves_tasks:
  assumes "i \<notin> task_id ` set (tasks s)" and "i \<notin> task_id ` set (tasks l)"
  shows "tasks (toggleTask i s) = tasks s \<and>
         tasks (removeTask i s) = tasks s \<and>
         tasks (saveEditing i s) = tasks s \<and>
         tasks (then_response resp (toggleTask i) s) = tasks s \<and>
         tasks (then_response resp (removeTask i) s) = tasks s \<and>
         tasks (then_response resp (saveEditing i) s) = tasks s \<and>
         tasks (toggleTask_local i l) = tasks l \<and>
         tasks (removeTask_local i l) = tasks l \<and>
         tasks (saveEditing_local i l) = tasks l"
proof -
  note a = assms(1)
  have t: "tasks (toggleTask i s) = tasks s"
    using a by (simp add: tasks_toggleTask find_id_None)
  have r: "tasks (removeTask i s) = tasks s"
    using a by (simp add: tasks_removeTask filter_absent)
  have e: "tasks (saveEditing i s) = tasks s"
    using a by (simp add: tasks_saveEditing map_absent)
  have t': "tasks (then_response resp (toggleTask i) s) = tasks s"
    using t by (simp add: tasks_then_response_toggleTask split: response.splits)
  have r': "tasks (then_response resp (removeTask i) s) = tasks s"
  proof (cases "auth_user s")
    case None
    then show ?thesis using r by (simp add: then_response_unissued pending_removeTask)
  next
    case (Some uid)
    then have "pending (removeTask i s) = pending s @ [(ReqDelete i uid, KRollback (tasks s))]"
      by (simp add: pending_removeTask)
    then show ?thesis
      using r by (simp add: then_response_issued tasks_resume_KRollback split: response.splits)
  qed
  have e': "tasks (then_response resp (saveEditing i) s) = tasks s"
  proof (cases "trim (editingText s) = [] \<or> auth_user s = None")
    case True
    then show ?thesis using e by (auto simp: then_response_unissued pending_saveEditing)
  next
    case False
    then obtain uid where "pending (saveEditing i s) =
        pending s @ [(ReqUpdateTitle i (trim (editingText s)) uid, KRollback (tasks s))]"
      by (auto simp: pending_saveEditing)
    then show ?thesis
      using e by (simp add: then_response_issued tasks_resume_KRollback split: response.splits)
  qed
  have loc: "tasks (toggleTask_local i l) = tasks l \<and> tasks (removeTask_local i l) = tasks l \<and>
      tasks (saveEditing_local i l) = tasks l"
    using assms(2)
    by (simp add: toggleTask_local_def removeTask_local_def saveEditing_local_def
          cancelEditing_local_def Let_def map_absent filter_absent)
  from t r e t' r' e' loc show ?thesis by simp
qed

theorem absent_id_leaves_tasks_witness:
  "NumId 9 \<notin> task_id ` set (tasks auth_AB) \<and>
   NumId 9 \<notin> task_id ` set (tasks (local_state.truncate anon_AB)) \<and>
   tasks (toggleTask (NumId 9) auth_AB) = [task_A, task_B] \<and>
   tasks (removeTask (NumId 9) auth_AB) = [task_A, task_B] \<and>
   tasks (saveEditing (NumId 9) auth_AB) = [task_A, task_B] \<and>
   tasks (then_response (Failure [0x65]) (removeTask (NumId 9)) auth_AB) = [task_A, task_B] \<and>
   tasks (saveEditing_local (NumId 9) (local_state.truncate anon_AB)) = [task_A, task_B]"
proof -
  have h1: "NumId 9 \<notin> task_id ` set (tasks auth_AB)"
    by (simp add: auth_AB_eq task_A_def task_B_def)
  have h2: "NumId 9 \<notin> task_id ` set (tasks (local_state.truncate anon_AB))"
    by (simp add: anon_AB_eq local_state.truncate_def task_A_def task_B_def)
  show ?thesis
    using h1 h2 absent_id_leaves_tasks [OF h1 h2, of "Failure [0x65]"]
    by (simp add: auth_AB_eq anon_AB_eq local_state.truncate_def)
qed

section \<open>Toggling twice\<close>

lemma find_map_done:
  "find (\<lambda>t. task_id t = i) ts = Some c \<Longrightarrow>
   find (\<lambda>t. task_id t = i) (map (\<lambda>t. if task_id t = i then t\<lparr>task_done := d\<rparr> else t) ts)
     = Some (c\<lparr>task_done := d\<rparr>)"
  by (induction ts) (auto split: if_splits)

lemma unique_ids_find:
  assumes "unique_ids ts" and "find (\<lambda>t. task_id t = i) ts = Some c"
    and "t \<in> set ts" and "task_id t = i"
  shows "t = c"
proof -
  from assms(2) have "c \<in> set ts" and "task_id c = i"
    by (auto simp: find_Some_iff)
  moreover from assms(1) have "inj_on task_id (set ts)"
    by (simp add: unique_ids_def distinct_map)
  ultimately show ?thesis
    using assms(3,4) by (auto dest: inj_onD)
qed

lemma toggle_back:
  assumes "unique_ids ts" and "find (\<lambda>t. task_id t = i) ts = Some c"
  shows "map (\<lambda>t. if task_id t = i then t\<lparr>task_done := task_done c\<rparr> else t)
           (map (\<lambda>t. if task_id t = i then t\<lparr>task_done := \<not> task_done c\<rparr> else t) ts) = ts"
proof -
  have "task_done t = task_done c" if "t \<in> set ts" and "task_id t = i" for t
    using unique_ids_find [OF assms that] by simp
  then have "map ((\<lambda>t. if task_id t = i then t\<lparr>task_done := task_done c\<rparr> else t) \<circ>
                  (\<lambda>t. if task_id t = i then t\<lparr>task_done := \<not> task_done c\<rparr> else t)) ts = ts"
    by (intro map_idI) auto
  then show ?thesis
    by simp
qed

lemma toggleTask_twice:
  assumes "unique_ids (tasks s)" and "tasks s1 = tasks (toggleTask i s)"
  shows "tasks (toggleTask i s1) = tasks s"
proof (cases "find (\<lambda>t. task_id t = i) (tasks s)")
  case None
  then show ?thesis
    using assms(2) by (simp add: tasks_toggleTask)
next
  case (Some c)
  then have s1: "tasks s1 = map (\<lambda>t. if task_id t = i then t\<lparr>task_done := \<not> task_done c\<rparr> else t) (tasks s)"
    using assms(2) by (simp add: tasks_toggleTask)
  have "find (\<lambda>t. task_id t = i) (tasks s1) = Some (c\<lparr>task_done := \<not> task_done c\<rparr>)"
    unfolding s1 using Some by (rule find_map_done)
  then have "tasks (toggleTask i s1) =
      map (\<lambda>t. if task_id t = i then t\<lparr>task_done := task_done c\<rparr> else t) (tasks s1)"
    by (simp add: tasks_toggleTask)
  then show ?thesis
    unfolding s1 using toggle_back [OF assms(1) Some] by simp
qed

text \<open>
  Claim C7, as amended.  In the Supabase-backed component \<open>toggleTask\<close> reads the flag of
  the first task with the id and writes its negation to every task with the id, so two
  toggles restore a list whose ids are unique: in anonymous mode, and signed in with both
  update requests succeeding.  In \<open>src/App.jsx\<close> every task with the id has its own flag
  negated, and two toggles restore every list.
\<close>

theorem toggleTask_twice_unique_ids:
  assumes "unique_ids (tasks s)"
  shows "tasks (toggleTask i (toggleTask i s)) = tasks s \<and>
         tasks (then_response Completed (toggleTask i) (then_response Completed (toggleTask i) s))
           = tasks s \<and>
         tasks (toggleTask_local i (toggleTask_local i l)) = tasks l"
proof -
  have a: "tasks (toggleTask i (toggleTask i s)) = tasks s"
    using assms by (rule toggleTask_twice) simp
  have "tasks (then_response Completed (toggleTask i) s) = tasks (toggleTask i s)"
    by (simp add: tasks_then_response_toggleTask)
  with assms have "tasks (toggleTask i (then_response Completed (toggleTask i) s)) = tasks s"
    by (rule toggleTask_twice)
  then have b: "tasks (then_response Completed (toggleTask i)
      (then_response Completed (toggleTask i) s)) = tasks s"
    by (simp add: tasks_then_response_toggleTask)
  have "map ((\<lambda>t. if task_id t = i then t\<lparr>task_done := \<not> task_done t\<rparr> else t) \<circ>
             (\<lambda>t. if task_id t = i then t\<lparr>task_done := \<not> task_done t\<rparr> else t)) (tasks l) = tasks l"
    by (intro map_idI) auto
  then have c: "tasks (toggleTask_local i (toggleTask_local i l)) = tasks l"
    by (simp add: toggleTask_local_def)
  from a b c show ?thesis by simp
qed

theorem toggleTask_twice_unique_ids_witness:
  "unique_ids (tasks auth_AB) \<and>
   tasks (toggleTask (NumId 2) auth_AB) = [task_A, task_B\<lparr>task_done := False\<rparr>] \<and>
   tasks (toggleTask (NumId 2) (toggleTask (NumId 2) auth_AB)) = [task_A, task_B] \<and>
   tasks (then_response Completed (toggleTask (NumId 2))
           (then_response Completed (toggleTask (NumId 2)) auth_AB)) = [task_A, task_B]"
proof -
  have h: "unique_ids (tasks auth_AB)"
    by (simp add: auth_AB_eq unique_ids_def task_A_def task_B_def)
  have t: "tasks (toggleTask (NumId 2) auth_AB) = [task_A, task_B\<lparr>task_done := False\<rparr>]"
    by (simp add: tasks_toggleTask auth_AB_eq task_A_def task_B_def)
  show ?thesis
    using h t toggleTask_twice_unique_ids [OF h, of "NumId 2" "local_state.truncate anon_AB"]
    by (simp add: auth_AB_eq)
qed

text \<open>
  Claim C7 as stated fails on a list in which two tasks share the toggled id and differ in
  their flag: after two toggles both carry the first one's flag.
\<close>

theorem toggleTask_twice_counterexample:
  "NumId 1 \<in> task_id ` set (tasks (anon_AB\<lparr>tasks := [task_A, task_A']\<rparr>)) \<and>
   tasks (toggleTask (NumId 1) (toggleTask (NumId 1) (anon_AB\<lparr>tasks := [task_A, task_A']\<rparr>)))
     = [task_A, task_A'\<lparr>task_done := False\<rparr>] \<and>
   tasks (toggleTask (NumId 1) (toggleTask (NumId 1) (anon_AB\<lparr>tasks := [task_A, task_A']\<rparr>)))
     \<noteq> tasks (anon_AB\<lparr>tasks := [task_A, task_A']\<rparr>) \<and>
   tasks (then_response Completed (toggleTask (NumId 1))
           (then_response Completed (toggleTask (NumId 1)) (auth_AB\<lparr>tasks := [task_A, task_A']\<rparr>)))
     \<noteq> tasks (auth_AB\<lparr>tasks := [task_A, task_A']\<rparr>)"
  by (simp add: tasks_then_response_toggleTask tasks_toggleTask task_A_def task_A'_def)

section \<open>Adding a task\<close>

lemma addTask_blank: "trim (text_st s) = [] \<Longrightarrow> addTask now s = s"
  by (simp add: addTask_def)

lemma addTask_anonymous:
  assumes "trim (text_st s) \<noteq> []" and "auth_user s = None"
  shows "addTask now s =
           s\<lparr>tasks := \<lparr>task_id = NumId now, task_title = trim (text_st s), task_done = False\<rparr>
                        # tasks s,
             text_st := []\<rparr>"
  using assms by (simp add: addTask_def)

lemma addTask_signed_in:
  assumes "trim (text_st s) \<noteq> []" and "auth_user s = Some uid"
  shows "addTask now s = issue (ReqInsert (trim (text_st s)) uid) KAdd (s\<lparr>remoteError := []\<rparr>)"
  using assms by (simp add: addTask_def)

lemma then_response_addTask:
  assumes "trim (text_st s) \<noteq> []" and "auth_user s = Some uid"
  shows "then_response resp (addTask now) s = resume KAdd resp (s\<lparr>remoteError := []\<rparr>)"
proof -
  have "pending (addTask now s) = pending s @ [(ReqInsert (trim (text_st s)) uid, KAdd)]"
    using assms by (simp add: pending_addTask)
  then have "then_response resp (addTask now) s
      = resume KAdd resp ((addTask now s)\<lparr>pending := pending s\<rparr>)"
    by (rule then_response_issued)
  also have "(addTask now s)\<lparr>pending := pending s\<rparr> = s\<lparr>remoteError := []\<rparr>"
    using assms by (simp add: addTask_signed_in issue_def)
  finally show ?thesis .
qed

text \<open>
  Claim C3, as amended.  With a blank input \<open>addTask\<close> changes nothing.  Otherwise, in
  anonymous mode (and in \<open>src/App.jsx\<close>) it puts one new task in front of the list and
  empties the input.  Signed in, it issues an insert and leaves list and input as they are
  until the response: when the insert succeeds the returned row is put in front of the
  list and the input is emptied; when it fails the list and the input stay as they are
  and the failure's message becomes the remote error.
\<close>

theorem addTask_effect:
  "(trim (text_st s) = [] \<longrightarrow> addTask now s = s) \<and>
   (trim (text_st s) \<noteq> [] \<and> auth_user s = None \<longrightarrow>
      tasks (addTask now s)
        = \<lparr>task_id = NumId now, task_title = trim (text_st s), task_done = False\<rparr> # tasks s \<and>
      length (tasks (addTask now s)) = Suc (length (tasks s)) \<and>
      text_st (addTask now s) = []) \<and>
   (trim (text_st s) \<noteq> [] \<and> auth_user s = Some uid \<longrightarrow>
      tasks (addTask now s) = tasks s \<and> text_st (addTask now s) = text_st s \<and>
      pending (addTask now s) = pending s @ [(ReqInsert (trim (text_st s)) uid, KAdd)] \<and>
      tasks (then_response (Inserted r) (addTask now) s) = to_task r # tasks s \<and>
      length (tasks (then_response (Inserted r) (addTask now) s)) = Suc (length (tasks s)) \<and>
      text_st (then_response (Inserted r) (addTask now) s) = [] \<and>
      tasks (then_response (Failure m) (addTask now) s) = tasks s \<and>
      text_st (then_response (Failure m) (addTask now) s) = text_st s \<and>
      remoteError (then_response (Failure m) (addTask now) s) = m) \<and>
   tasks (resume KAdd (Inserted r) s') = to_task r # tasks s' \<and>
   text_st (resume KAdd (Inserted r) s') = [] \<and>
   tasks (resume KAdd (Failure m) s') = tasks s' \<and>
   text_st (resume KAdd (Failure m) s') = text_st s' \<and>
   (trim (text_st l) = [] \<longrightarrow> addTask_local now l = l) \<and>
   (trim (text_st l) \<noteq> [] \<longrightarrow>
      tasks (addTask_local now l)
        = \<lparr>task_id = NumId now, task_title = trim (text_st l), task_done = False\<rparr> # tasks l \<and>
      length (tasks (addTask_local now l)) = Suc (length (tasks l)) \<and>
      text_st (addTask_local now l) = [])"
proof -
  have blank: "trim (text_st s) = [] \<longrightarrow> addTask now s = s"
    by (simp add: addTask_blank)
  have anon: "trim (text_st s) \<noteq> [] \<and> auth_user s = None \<longrightarrow>
      tasks (addTask now s)
        = \<lparr>task_id = NumId now, task_title = trim (text_st s), task_done = False\<rparr> # tasks s \<and>
      length (tasks (addTask now s)) = Suc (length (tasks s)) \<and>
      text_st (addTask now s) = []"
    by (simp add: addTask_anonymous)
  have auth: "trim (text_st s) \<noteq> [] \<and> auth_user s = Some uid \<longrightarrow>
      tasks (addTask now s) = tasks s \<and> text_st (addTask now s) = text_st s \<and>
      pending (addTask now s) = pending s @ [(ReqInsert (trim (text_st s)) uid, KAdd)] \<and>
      tasks (then_response (Inserted r) (addTask now) s) = to_task r # tasks s \<and>
      length (tasks (then_response (Inserted r) (addTask now) s)) = Suc (length (tasks s)) \<and>
      text_st (then_response (Inserted r) (addTask now) s) = [] \<and>
      tasks (then_response (Failure m) (addTask now) s) = tasks s \<and>
      text_st (then_response (Failure m) (addTask now) s) = text_st s \<and>
      remoteError (then_response (Failure m) (addTask now) s) = m"
    by (simp add: then_response_addTask addTask_signed_in issue_def)
  have loc: "(trim (text_st l) = [] \<longrightarrow> addTask_local now l = l) \<and>
      (trim (text_st l) \<noteq> [] \<longrightarrow>
        tasks (addTask_local now l)
          = \<lparr>task_id = NumId now, task_title = trim (text_st l), task_done = False\<rparr> # tasks l \<and>
        length (tasks (addTask_local now l)) = Suc (length (tasks l)) \<and>
        text_st (addTask_local now l) = [])"
    by (simp add: addTask_local_def)
  from blank anon auth loc show ?thesis
    by simp
qed

theorem addTask_effect_witness:
  "trim (text_st auth_AB) \<noteq> [] \<and> auth_user auth_AB = Some user_u \<and>
   length (tasks (then_response (Inserted row_C) (addTask 5) auth_AB)) = 3 \<and>
   text_st (then_response (Inserted row_C) (addTask 5) auth_AB) = [] \<and>
   remoteError (then_response (Failure [0x65]) (addTask 5) auth_AB) = [0x65] \<and>
   trim (text_st (anon_AB\<lparr>text_st := [0x20, 0x78, 0x20]\<rparr>)) \<noteq> [] \<and>
   auth_user (anon_AB\<lparr>text_st := [0x20, 0x78, 0x20]\<rparr>) = None \<and>
   tasks (addTask 5 (anon_AB\<lparr>text_st := [0x20, 0x78, 0x20]\<rparr>))
     = [\<lparr>task_id = NumId 5, task_title = [0x78], task_done = False\<rparr>, task_A, task_B] \<and>
   text_st (addTask 5 (anon_AB\<lparr>text_st := [0x20, 0x78, 0x20]\<rparr>)) = [] \<and>
   trim (text_st (anon_AB\<lparr>text_st := [0x20, 0x9]\<rparr>)) = [] \<and>
   addTask 5 (anon_AB\<lparr>text_st := [0x20, 0x9]\<rparr>) = anon_AB\<lparr>text_st := [0x20, 0x9]\<rparr>"
proof -
  have t1: "trim (text_st auth_AB) = [0x78]"
    by (simp add: auth_AB_eq trim_x)
  have u1: "auth_user auth_AB = Some user_u"
    by (simp add: auth_AB_eq auth_user_def)
  have t2: "trim (text_st (anon_AB\<lparr>text_st := [0x20, 0x78, 0x20]\<rparr>)) = [0x78]"
    by (simp add: trim_def is_ws_def)
  have u2: "auth_user (anon_AB\<lparr>text_st := [0x20, 0x78, 0x20]\<rparr>) = None"
    by (simp add: anon_AB_eq auth_user_def)
  have t3: "trim (text_st (anon_AB\<lparr>text_st := [0x20, 0x9]\<rparr>)) = []"
    by (simp add: trim_def is_ws_def)
  show ?thesis
    using t1 u1 t2 u2 t3
      addTask_effect [of auth_AB 5 user_u row_C "[0x65]" auth_AB "local_state.truncate anon_AB"]
      addTask_effect [of "anon_AB\<lparr>text_st := [0x20, 0x78, 0x20]\<rparr>" 5 user_u row_C "[0x65]"
                         auth_AB "local_state.truncate anon_AB"]
      addTask_effect [of "anon_AB\<lparr>text_st := [0x20, 0x9]\<rparr>" 5 user_u row_C "[0x65]"
                         auth_AB "local_state.truncate anon_AB"]
    by (simp add: auth_AB_eq anon_AB_eq)
qed

text \<open>
  Claim C3 as stated fails when the insert fails: the input is not blank, and after the
  failed insert the list has its old length and the input still holds its text.
\<close>

theorem addTask_insert_failure_counterexample:
  "trim (text_st auth_AB) \<noteq> [] \<and>
   length (tasks (then_response (Failure [0x65]) (addTask 5) auth_AB)) = length (tasks auth_AB) \<and>
   tasks (then_response (Failure [0x65]) (addTask 5) auth_AB) = tasks auth_AB \<and>
   text_st (then_response (Failure [0x65]) (addTask 5) auth_AB) = [0x78] \<and>
   text_st (then_response (Failure [0x65]) (addTask 5) auth_AB) \<noteq> []"
  by (simp add: then_response_def addTask_def Let_def auth_user_def issue_def resolve_def
        auth_AB_eq trim_x)

section \<open>Rollback of an optimistic update\<close>

lemma rollback_on_failure:
  assumes "pending (h s) = pending s @ [(r, KRollback p)]"
  shows "tasks (then_response (Failure m) h s) = p \<and>
         remoteError (then_response (Failure m) h s) = m"
  using assms by (simp add: then_response_issued [where h = h and s = s])

lemma resolve_rollback:
  assumes "n < length (pending s')" and "snd (pending s' ! n) = KRollback p"
  shows "tasks (resolve n (Failure m) s') = p \<and> remoteError (resolve n (Failure m) s') = m"
  using assms by (simp add: resolve_def)

text \<open>
  What the four handlers do on a failure.  Signed in, each of \<open>toggleTask\<close> (on an id of
  the list), \<open>removeTask\<close>, \<open>clearCompleted\<close> and \<open>saveEditing\<close> (with a text that is not
  blank) issues one request and keeps the task list it started from as \<open>prevTasks\<close>.
  When that request fails, at once or in any later state, the task list is that snapshot
  again and the remote error is the failure's message, whatever that message is.
\<close>

theorem failed_request_rolls_back:
  assumes "auth_user s = Some uid"
  shows "(find (\<lambda>t. task_id t = i) (tasks s) = Some c \<longrightarrow>
            pending (toggleTask i s)
              = pending s @ [(ReqUpdateDone i (\<not> task_done c) uid, KRollback (tasks s))] \<and>
            tasks (then_response (Failure m) (toggleTask i) s) = tasks s \<and>
            remoteError (then_response (Failure m) (toggleTask i) s) = m) \<and>
         pending (removeTask i s) = pending s @ [(ReqDelete i uid, KRollback (tasks s))] \<and>
         tasks (then_response (Failure m) (removeTask i) s) = tasks s \<and>
         remoteError (then_response (Failure m) (removeTask i) s) = m \<and>
         pending (clearCompleted s) = pending s @ [(ReqDeleteDone uid, KRollback (tasks s))] \<and>
         tasks (then_response (Failure m) clearCompleted s) = tasks s \<and>
         remoteError (then_response (Failure m) clearCompleted s) = m \<and>
         (trim (editingText s) \<noteq> [] \<longrightarrow>
            pending (saveEditing i s)
              = pending s @ [(ReqUpdateTitle i (trim (editingText s)) uid, KRollback (tasks s))] \<and>
            tasks (then_response (Failure m) (saveEditing i) s) = tasks s \<and>
            remoteError (then_response (Failure m) (saveEditing i) s) = m) \<and>
         (\<forall>s' n. n < length (pending s') \<and> snd (pending s' ! n) = KRollback (tasks s) \<longrightarrow>
            tasks (resolve n (Failure m) s') = tasks s \<and>
            remoteError (resolve n (Failure m) s') = m)"
proof -
  have tog: "pending (toggleTask i s)
        = pending s @ [(ReqUpdateDone i (\<not> task_done c) uid, KRollback (tasks s))] \<and>
      tasks (then_response (Failure m) (toggleTask i) s) = tasks s \<and>
      remoteError (then_response (Failure m) (toggleTask i) s) = m"
    if "find (\<lambda>t. task_id t = i) (tasks s) = Some c"
  proof -
    have p: "pending (toggleTask i s)
        = pending s @ [(ReqUpdateDone i (\<not> task_done c) uid, KRollback (tasks s))]"
      using that assms by (simp add: pending_toggleTask)
    show ?thesis
      using p rollback_on_failure [where h = "toggleTask i" and s = s, OF p] by simp
  qed
  have rem_p: "pending (removeTask i s) = pending s @ [(ReqDelete i uid, KRollback (tasks s))]"
    using assms by (simp add: pending_removeTask)
  note rem = rollback_on_failure [where h = "removeTask i" and s = s and m = m, OF rem_p]
  have clr_p: "pending (clearCompleted s) = pending s @ [(ReqDeleteDone uid, KRollback (tasks s))]"
    using assms by (simp add: pending_clearCompleted)
  note clr = rollback_on_failure [where h = clearCompleted and s = s and m = m, OF clr_p]
  have sav: "pending (saveEditing i s)
        = pending s @ [(ReqUpdateTitle i (trim (editingText s)) uid, KRollback (tasks s))] \<and>
      tasks (then_response (Failure m) (saveEditing i) s) = tasks s \<and>
      remoteError (then_response (Failure m) (saveEditing i) s) = m"
    if "trim (editingText s) \<noteq> []"
  proof -
    have p: "pending (saveEditing i s)
        = pending s @ [(ReqUpdateTitle i (trim (editingText s)) uid, KRollback (tasks s))]"
      using that assms by (simp add: pending_saveEditing)
    show ?thesis
      using p rollback_on_failure [where h = "saveEditing i" and s = s, OF p] by simp
  qed
  have later: "\<forall>s' n. n < length (pending s') \<and> snd (pending s' ! n) = KRollback (tasks s) \<longrightarrow>
      tasks (resolve n (Failure m) s') = tasks s \<and> remoteError (resolve n (Failure m) s') = m"
    by (simp add: resolve_rollback)
  from tog rem_p rem clr_p clr sav later show ?thesis
    by blast
qed

theorem failed_request_rolls_back_witness:
  "auth_user auth_AB = Some user_u \<and>
   find (\<lambda>t. task_id t = NumId 1) (tasks auth_AB) = Some task_A \<and>
   trim (editingText auth_AB) \<noteq> [] \<and>
   tasks (toggleTask (NumId 1) auth_AB) = [task_A\<lparr>task_done := True\<rparr>, task_B] \<and>
   tasks (then_response (Failure [0x65]) (toggleTask (NumId 1)) auth_AB) = [task_A, task_B] \<and>
   remoteError (then_response (Failure [0x65]) (toggleTask (NumId 1)) auth_AB) = [0x65] \<and>
   tasks (saveEditing (NumId 1) auth_AB) = [task_A\<lparr>task_title := [0x78]\<rparr>, task_B] \<and>
   tasks (then_response (Failure [0x65]) (saveEditing (NumId 1)) auth_AB) = [task_A, task_B] \<and>
   tasks (then_response (Failure [0x65]) (removeTask (NumId 1)) auth_AB) = [task_A, task_B] \<and>
   tasks (then_response (Failure [0x65]) clearCompleted auth_AB) = [task_A, task_B]"
proof -
  have u: "auth_user auth_AB = Some user_u"
    by (simp add: auth_AB_eq auth_user_def)
  have f: "find (\<lambda>t. task_id t = NumId 1) (tasks auth_AB) = Some task_A"
    by (simp add: auth_AB_eq task_A_def)
  have t: "trim (editingText auth_AB) = [0x78]"
    by (simp add: auth_AB_eq trim_x)
  have o: "tasks (toggleTask (NumId 1) auth_AB) = [task_A\<lparr>task_done := True\<rparr>, task_B]"
          "tasks (saveEditing (NumId 1) auth_AB) = [task_A\<lparr>task_title := [0x78]\<rparr>, task_B]"
    by (simp_all add: tasks_toggleTask tasks_saveEditing auth_AB_eq trim_x task_A_def task_B_def)
  show ?thesis
    using u f t o failed_request_rolls_back [OF u, of "NumId 1" task_A "[0x65]"]
    by (simp add: auth_AB_eq)
qed

text \<open>
  Claim C1, at the failing input.  Signed in with the tasks A and B, the user toggles A
  and the update request fails with an error whose message is the empty string.  The list
  is rolled back to the snapshot, and the remote error is that empty message, so the
  status area, which renders only a non-empty \<open>remoteError\<close>, shows nothing.  The load,
  for the same failure, falls back to its own text (\<open>e?.message || "..."\<close>) and shows it.
\<close>

theorem failed_request_empty_message:
  "pending (toggleTask (NumId 1) auth_AB)
     = [(ReqUpdateDone (NumId 1) True user_u, KRollback [task_A, task_B])] \<and>
   tasks (toggleTask (NumId 1) auth_AB) = [task_A\<lparr>task_done := True\<rparr>, task_B] \<and>
   tasks (then_response (Failure []) (toggleTask (NumId 1)) auth_AB) = [task_A, task_B] \<and>
   remoteError (then_response (Failure []) (toggleTask (NumId 1)) auth_AB) = [] \<and>
   remoteError (then_response (Failure []) (removeTask (NumId 1)) auth_AB) = [] \<and>
   remoteError (then_response (Failure []) clearCompleted auth_AB) = [] \<and>
   remoteError (then_response (Failure []) (saveEditing (NumId 1)) auth_AB) = [] \<and>
   remoteError (resume (KLoad user_u) (Failure []) auth_AB) = load_failed_text \<and>
   load_failed_text \<noteq> []"
  by (simp add: then_response_def toggleTask_def removeTask_def clearCompleted_def
        saveEditing_def cancelEditing_def Let_def auth_user_def issue_def resolve_def
        auth_AB_eq task_A_def task_B_def trim_x load_failed_def load_failed_text_def
        str_created_at_def)

section \<open>Invariants of the task lists a state holds\<close>

lemma held_iff:
  "list_all P (held_lists s) \<longleftrightarrow>
     P (tasks s) \<and> (\<forall>ts. storage s = Some ts \<longrightarrow> P ts) \<and>
     (\<forall>p \<in> set (pending s). P (snapshot_of (snd p)))"
  by (auto simp: held_lists_def list_all_iff split: option.splits)

lemma held_commit:
  assumes "P []" and "list_all P (held_lists new)"
  shows "list_all P (held_lists (commit old new))"
proof -
  have persist: "list_all P (held_lists (persist_effect s))" if "list_all P (held_lists s)" for s
    using that by (auto simp: held_iff persist_effect_def split: option.splits)
  have restore: "list_all P (held_lists (restore_local s))" if "list_all P (held_lists s)" for s
    using that by (auto simp: held_iff restore_local_def split: option.splits)
  have session: "list_all P (held_lists (session_effect s))" if "list_all P (held_lists s)" for s
  proof -
    have s1: "list_all P (held_lists (s\<lparr>prevUserIdRef := session s\<rparr>))"
      using that by (simp add: held_iff)
    from restore [OF s1]
    have "list_all P (held_lists ((restore_local (s\<lparr>prevUserIdRef := session s\<rparr>))
        \<lparr>remoteError := [], remoteLoading := False\<rparr>))"
      by (simp add: held_iff)
    with s1 assms(1) show ?thesis
      by (auto simp: session_effect_def Let_def held_iff issue_def split: option.splits)
  qed
  show ?thesis
    unfolding commit_def Let_def using assms(2) by (auto intro!: persist session)
qed

lemma held_resolve:
  assumes "P []" and "list_all P (held_lists s)"
    and "\<And>r. resp = Inserted r \<Longrightarrow> P (to_task r # tasks s)"
    and "\<And>d. resp = Selected d \<Longrightarrow> P (map to_task (case d of None \<Rightarrow> [] | Some rs \<Rightarrow> rs))"
  shows "list_all P (held_lists (resolve n resp s))"
proof (cases "n < length (pending s)")
  case False
  then show ?thesis using assms(2) by (simp add: resolve_def)
next
  case True
  define s0 where "s0 = s\<lparr>pending := take n (pending s) @ drop (Suc n) (pending s)\<rparr>"
  define k where "k = snd (pending s ! n)"
  have s0: "list_all P (held_lists s0)"
    using assms(2) by (auto simp: held_iff s0_def dest: in_set_takeD in_set_dropD)
  have k: "P (snapshot_of k)"
    using assms(2) True by (simp add: held_iff k_def)
  have t0: "tasks s0 = tasks s"
    by (simp add: s0_def)
  have "list_all P (held_lists (resume k resp s0))"
  proof (cases k)
    case KAdd
    then show ?thesis
      using s0 assms(3) t0 by (cases resp) (auto simp: held_iff)
  next
    case (KRollback p)
    then show ?thesis
      using s0 k by (cases resp) (auto simp: held_iff)
  next
    case (KLoad uid)
    then show ?thesis
      using s0 assms(1,4) by (cases resp) (auto simp: held_iff issue_def load_failed_def load_ok_def)
  next
    case KLoadFallback
    then show ?thesis
      using s0 assms(4) by (cases resp) (auto simp: held_iff load_failed_def load_ok_def)
  qed
  then show ?thesis
    using True by (simp add: resolve_def s0_def k_def)
qed

lemma held_handle:
  assumes nil: "P []" and held: "list_all P (held_lists s)"
    and flt: "\<And>Q ts. P ts \<Longrightarrow> P (filter Q ts)"
    and dn: "\<And>i d ts. P ts \<Longrightarrow> P (map (\<lambda>t. if task_id t = i then t\<lparr>task_done := d\<rparr> else t) ts)"
    and ttl: "\<And>i x ts. P ts \<Longrightarrow> trim x \<noteq> [] \<Longrightarrow>
                P (map (\<lambda>t. if task_id t = i then t\<lparr>task_title := trim x\<rparr> else t) ts)"
    and add: "\<And>now. e = AddTask now \<Longrightarrow> trim (text_st s) \<noteq> [] \<Longrightarrow>
                P (\<lparr>task_id = NumId now, task_title = trim (text_st s), task_done = False\<rparr> # tasks s)"
    and ins: "\<And>n r. e = Resolve n (Inserted r) \<Longrightarrow> P (to_task r # tasks s)"
    and sel: "\<And>n d. e = Resolve n (Selected d) \<Longrightarrow>
                P (map to_task (case d of None \<Rightarrow> [] | Some rs \<Rightarrow> rs))"
  shows "list_all P (held_lists (handle e s))"
proof (cases e)
  case (AddTask now)
  then show ?thesis
    using held nil add by (auto simp: held_iff addTask_def Let_def issue_def split: option.splits)
next
  case (ToggleTask i)
  then show ?thesis
    using held dn by (auto simp: held_iff toggleTask_def Let_def issue_def split: option.splits)
next
  case (RemoveTask i)
  then show ?thesis
    using held flt by (auto simp: held_iff removeTask_def Let_def issue_def split: option.splits)
next
  case ClearCompleted
  then show ?thesis
    using held flt by (auto simp: held_iff clearCompleted_def Let_def issue_def split: option.splits)
next
  case (SaveEditing i)
  then show ?thesis
    using held ttl
    by (auto simp: held_iff saveEditing_def cancelEditing_def Let_def issue_def split: option.splits)
next
  case (Resolve n resp)
  then show ?thesis
    using held_resolve [of P s resp n] nil held ins sel by simp
qed (use held in \<open>auto simp: held_iff startEditing_def cancelEditing_def\<close>)

section \<open>Titles\<close>

lemma dropWhile_rev_dropWhile:
  "dropWhile P (rev (dropWhile P (rev (dropWhile P s)))) = rev (dropWhile P (rev (dropWhile P s)))"
proof (cases "dropWhile P (rev (dropWhile P s)) = []")
  case True
  then show ?thesis by (simp only: rev.simps dropWhile.simps)
next
  case False
  define a where "a = dropWhile P s"
  define b where "b = dropWhile P (rev a)"
  from False have b: "b \<noteq> []" by (simp add: b_def a_def)
  then have a: "a \<noteq> []" by (auto simp: b_def)
  have "suffix b (rev a)"
    unfolding b_def by (rule suffix_dropWhile)
  then obtain c where "rev a = c @ b"
    by (auto simp: suffix_def)
  with b have "last b = last (rev a)" by simp
  also have "\<dots> = hd a" using a by (simp add: last_rev)
  finally have "hd (rev b) = hd a" using b by (simp add: hd_rev)
  moreover have "\<not> P (hd a)"
    using a unfolding a_def by (rule hd_dropWhile)
  ultimately have "dropWhile P (rev b) = rev b"
    using b by (simp add: dropWhile_eq_self_iff)
  then show ?thesis by (simp add: a_def b_def)
qed

lemma trim_trim: "trim (trim s) = trim s"
proof -
  have "dropWhile is_ws (trim s) = trim s"
    unfolding trim_def by (rule dropWhile_rev_dropWhile)
  moreover have "dropWhile is_ws (rev (trim s)) = rev (trim s)"
    by (cases "dropWhile is_ws (rev (dropWhile is_ws s)) = []")
       (auto simp: trim_def dropWhile_eq_self_iff dest: hd_dropWhile)
  ultimately show ?thesis
    by (simp add: trim_def)
qed

lemma titled_filter: "titled ts \<Longrightarrow> titled (filter Q ts)"
  by (auto simp: titled_def list_all_iff)

lemma titled_done:
  "titled ts \<Longrightarrow> titled (map (\<lambda>t. if task_id t = i then t\<lparr>task_done := d\<rparr> else t) ts)"
  by (auto simp: titled_def list_all_iff)

lemma titled_title:
  "titled ts \<Longrightarrow> trim x \<noteq> [] \<Longrightarrow>
   titled (map (\<lambda>t. if task_id t = i then t\<lparr>task_title := trim x\<rparr> else t) ts)"
  by (auto simp: titled_def list_all_iff trim_trim)

lemma title_inv_step:
  assumes "title_inv s" and "supplies_titled e"
  shows "title_inv (step e s)"
proof -
  have nil: "titled []" by (simp add: titled_def)
  have "list_all titled (held_lists (handle e s))"
  proof (rule held_handle [where P = titled, OF nil])
    show "list_all titled (held_lists s)"
      using assms(1) by (simp add: title_inv_def)
    show "titled (\<lparr>task_id = NumId now, task_title = trim (text_st s), task_done = False\<rparr> # tasks s)"
      if "trim (text_st s) \<noteq> []" for now
      using that assms(1) by (simp add: title_inv_def held_iff titled_def trim_trim)
    show "titled (to_task r # tasks s)" if "e = Resolve n (Inserted r)" for n r
      using that assms by (simp add: title_inv_def held_iff titled_def to_task_def)
    show "titled (map to_task (case d of None \<Rightarrow> [] | Some rs \<Rightarrow> rs))"
      if "e = Resolve n (Selected d)" for n d
      using that assms(2) by (auto simp: titled_def to_task_def list_all_iff split: option.splits)
  qed (simp_all add: titled_filter titled_done titled_title)
  then show ?thesis
    unfolding title_inv_def step_def by (rule held_commit [where P = titled, OF nil])
qed

lemma title_inv_run:
  "title_inv s \<Longrightarrow> list_all supplies_titled es \<Longrightarrow> title_inv (run es s)"
  by (induction es arbitrary: s) (simp_all add: title_inv_step)

lemma titled_default_tasks: "titled default_tasks"
  by (simp add: titled_def default_tasks_def trim_def is_ws_def)

lemma title_inv_mounted:
  assumes "case stored of None \<Rightarrow> True | Some ts \<Rightarrow> titled ts"
  shows "title_inv (mounted ready stored f)"
  using assms titled_default_tasks
  by (auto simp: title_inv_def held_iff mounted_def persist_effect_def split: option.splits)

lemma saveEditing_blank: "trim (editingText s) = [] \<Longrightarrow> saveEditing i s = cancelEditing s"
  by (simp add: saveEditing_def)

text \<open>
  Claim C8, as amended.  Committing an edit whose trimmed text is empty only clears the
  editing state: \<open>saveEditing\<close> is then \<open>cancelEditing\<close>, the task list (so every title)
  is as before and no request is issued.  And the handlers give no task an empty or
  white-space title of their own: when every title held by the state (displayed list,
  stored snapshot, rollback snapshots) is neither, this stays so along every sequence of
  events in which every row that the backend returns, inserted or loaded, has such a
  title; in particular from the mounted component.  Both components.
\<close>

theorem blank_titles_rejected:
  "(trim (editingText s) = [] \<longrightarrow>
      saveEditing i s = cancelEditing s \<and> tasks (saveEditing i s) = tasks s \<and>
      editingId (saveEditing i s) = None \<and> editingText (saveEditing i s) = [] \<and>
      pending (saveEditing i s) = pending s) \<and>
   (trim (editingText l) = [] \<longrightarrow>
      saveEditing_local i l = cancelEditing_local l \<and> tasks (saveEditing_local i l) = tasks l \<and>
      editingId (saveEditing_local i l) = None \<and> editingText (saveEditing_local i l) = []) \<and>
   (title_inv s \<and> list_all supplies_titled es \<longrightarrow>
      title_inv (run es s) \<and> titled (tasks (run es s))) \<and>
   ((case stored of None \<Rightarrow> True | Some ts \<Rightarrow> titled ts) \<and> list_all supplies_titled es \<longrightarrow>
      titled (tasks (run es (mounted ready stored f)))) \<and>
   (titled (tasks l) \<longrightarrow>
      titled (tasks (addTask_local now l)) \<and> titled (tasks (saveEditing_local i l)) \<and>
      titled (tasks (toggleTask_local i l)) \<and> titled (tasks (removeTask_local i l)) \<and>
      titled (tasks (clearCompleted_local l)))"
proof -
  have a: "trim (editingText s) = [] \<longrightarrow>
      saveEditing i s = cancelEditing s \<and> tasks (saveEditing i s) = tasks s \<and>
      editingId (saveEditing i s) = None \<and> editingText (saveEditing i s) = [] \<and>
      pending (saveEditing i s) = pending s"
    by (simp add: saveEditing_blank cancelEditing_def)
  have b: "trim (editingText l) = [] \<longrightarrow>
      saveEditing_local i l = cancelEditing_local l \<and> tasks (saveEditing_local i l) = tasks l \<and>
      editingId (saveEditing_local i l) = None \<and> editingText (saveEditing_local i l) = []"
    by (simp add: saveEditing_local_def cancelEditing_local_def)
  have run_titled: "title_inv (run es s') \<and> titled (tasks (run es s'))"
    if "title_inv s'" and "list_all supplies_titled es" for s'
  proof -
    from that have "title_inv (run es s')" by (rule title_inv_run)
    then show ?thesis by (simp add: title_inv_def held_iff)
  qed
  have c: "title_inv s \<and> list_all supplies_titled es \<longrightarrow>
      title_inv (run es s) \<and> titled (tasks (run es s))"
    using run_titled by simp
  have d: "(case stored of None \<Rightarrow> True | Some ts \<Rightarrow> titled ts) \<and> list_all supplies_titled es \<longrightarrow>
      titled (tasks (run es (mounted ready stored f)))"
    using run_titled [OF title_inv_mounted] by simp
  have e: "titled (tasks l) \<longrightarrow>
      titled (tasks (addTask_local now l)) \<and> titled (tasks (saveEditing_local i l)) \<and>
      titled (tasks (toggleTask_local i l)) \<and> titled (tasks (removeTask_local i l)) \<and>
      titled (tasks (clearCompleted_local l))"
    by (auto simp: titled_def list_all_iff trim_trim addTask_local_def saveEditing_local_def
          cancelEditing_local_def toggleTask_local_def removeTask_local_def
          clearCompleted_local_def Let_def)
  from a b c d e show ?thesis by blast
qed

theorem blank_titles_rejected_witness:
  "trim (editingText (auth_AB\<lparr>editingId := Some (NumId 1), editingText := [0x20, 0x9]\<rparr>)) = [] \<and>
   saveEditing (NumId 1) (auth_AB\<lparr>editingId := Some (NumId 1), editingText := [0x20, 0x9]\<rparr>)
     = auth_AB\<lparr>editingId := None, editingText := []\<rparr> \<and>
   tasks (saveEditing (NumId 1) (auth_AB\<lparr>editingId := Some (NumId 1), editingText := [0x20, 0x9]\<rparr>))
     = [task_A, task_B] \<and>
   list_all supplies_titled
     [SetText [0x78], AddTask 5, AuthChange (Some user_u), Resolve 0 (Selected (Some [row_C])),
      SetText [0x78], AddTask 0, Resolve 0 (Inserted (row_C\<lparr>row_id := NumId 8\<rparr>)),
      StartEditing (to_task row_C), SetEditingText [0x20, 0x79, 0x20], SaveEditing (NumId 7),
      Resolve 0 Completed] \<and>
   tasks (run [SetText [0x78], AddTask 5, AuthChange (Some user_u),
               Resolve 0 (Selected (Some [row_C])), SetText [0x78], AddTask 0,
               Resolve 0 (Inserted (row_C\<lparr>row_id := NumId 8\<rparr>)), StartEditing (to_task row_C),
               SetEditingText [0x20, 0x79, 0x20], SaveEditing (NumId 7), Resolve 0 Completed]
            (mounted True (Some [task_A, task_B]) FILTERS_all))
     = [\<lparr>task_id = NumId 8, task_title = [0x43], task_done = True\<rparr>,
        \<lparr>task_id = NumId 7, task_title = [0x79], task_done = True\<rparr>] \<and>
   titled (tasks (run [SetText [0x78], AddTask 5, AuthChange (Some user_u),
                       Resolve 0 (Selected (Some [row_C])), SetText [0x78], AddTask 0,
                       Resolve 0 (Inserted (row_C\<lparr>row_id := NumId 8\<rparr>)),
                       StartEditing (to_task row_C), SetEditingText [0x20, 0x79, 0x20],
                       SaveEditing (NumId 7), Resolve 0 Completed]
                    (mounted True (Some [task_A, task_B]) FILTERS_all)))"
proof -
  let ?s = "auth_AB\<lparr>editingId := Some (NumId 1), editingText := [0x20, 0x9]\<rparr>"
  let ?es = "[SetText [0x78], AddTask 5, AuthChange (Some user_u),
              Resolve 0 (Selected (Some [row_C])), SetText [0x78], AddTask 0,
              Resolve 0 (Inserted (row_C\<lparr>row_id := NumId 8\<rparr>)), StartEditing (to_task row_C),
              SetEditingText [0x20, 0x79, 0x20], SaveEditing (NumId 7), Resolve 0 Completed]"
  have h1: "trim (editingText ?s) = []"
    by (simp add: trim_def is_ws_def)
  have h2: "list_all supplies_titled ?es"
    by (simp add: row_C_def trim_def is_ws_def)
  have h3: "case Some [task_A, task_B] of None \<Rightarrow> True | Some ts \<Rightarrow> titled ts"
    by (simp add: titled_def task_A_def task_B_def trim_def is_ws_def)
  have r: "tasks (run ?es (mounted True (Some [task_A, task_B]) FILTERS_all))
      = [\<lparr>task_id = NumId 8, task_title = [0x43], task_done = True\<rparr>,
         \<lparr>task_id = NumId 7, task_title = [0x79], task_done = True\<rparr>]"
    by (simp add: run_defs addTask_def startEditing_def saveEditing_def cancelEditing_def
          auth_user_def trim_def is_ws_def task_A_def task_B_def row_C_def user_u_def)
  show ?thesis
    using h1 h2 h3 r
      blank_titles_rejected [where s = ?s and i = "NumId 1" and es = ?es and ready = True
                             and stored = "Some [task_A, task_B]" and f = FILTERS_all
                             and l = "local_state.truncate anon_AB" and now = 5]
    by (simp add: auth_AB_eq cancelEditing_def)
qed

text \<open>
  Claim C8 as stated fails, for the titles that come from the backend are copied
  unchecked.  Signed in, the row returned for an insert is put in front of the list with
  the title it carries, here a single space; and the rows of a load replace the list
  with their titles, here an empty one.
\<close>

theorem blank_titles_counterexample:
  "titled (tasks auth_AB) \<and>
   tasks (run [AddTask 0,
               Resolve 0 (Inserted \<lparr>row_id = NumId 9, row_title = [0x20], row_done = Some False\<rparr>)]
            auth_AB)
     = [\<lparr>task_id = NumId 9, task_title = [0x20], task_done = False\<rparr>, task_A, task_B] \<and>
   trim [0x20] = [] \<and>
   \<not> titled (tasks (run [AddTask 0,
                         Resolve 0 (Inserted \<lparr>row_id = NumId 9, row_title = [0x20],
                                               row_done = Some False\<rparr>)]
                      auth_AB)) \<and>
   tasks (run [AuthChange (Some user_u),
               Resolve 0 (Selected (Some [\<lparr>row_id = NumId 9, row_title = [], row_done = None\<rparr>]))]
            anon_AB)
     = [\<lparr>task_id = NumId 9, task_title = [], task_done = False\<rparr>] \<and>
   \<not> titled (tasks (run [AuthChange (Some user_u),
                         Resolve 0 (Selected (Some [\<lparr>row_id = NumId 9, row_title = [],
                                                       row_done = None\<rparr>]))]
                      anon_AB))"
proof -
  have a: "tasks (run [AddTask 0,
               Resolve 0 (Inserted \<lparr>row_id = NumId 9, row_title = [0x20], row_done = Some False\<rparr>)]
            auth_AB)
     = [\<lparr>task_id = NumId 9, task_title = [0x20], task_done = False\<rparr>, task_A, task_B]"
    by (simp add: auth_AB_eq run_defs addTask_def auth_user_def trim_x)
  have b: "tasks (run [AuthChange (Some user_u),
               Resolve 0 (Selected (Some [\<lparr>row_id = NumId 9, row_title = [], row_done = None\<rparr>]))]
            anon_AB)
     = [\<lparr>task_id = NumId 9, task_title = [], task_done = False\<rparr>]"
    by (simp add: anon_AB_eq run_defs user_u_def)
  have c: "titled (tasks auth_AB)"
    by (simp add: auth_AB_eq titled_def task_A_def task_B_def trim_def is_ws_def)
  have d: "trim [0x20] = []"
    by (simp add: trim_def is_ws_def)
  show ?thesis
    unfolding a b using c d by (simp add: titled_def trim_def is_ws_def)
qed

section \<open>Uniqueness of ids\<close>

lemma unique_ids_filter: "unique_ids ts \<Longrightarrow> unique_ids (filter Q ts)"
  by (simp add: unique_ids_def distinct_map_filter)

lemma unique_ids_done:
  "unique_ids ts \<Longrightarrow> unique_ids (map (\<lambda>t. if task_id t = i then t\<lparr>task_done := d\<rparr> else t) ts)"
proof -
  have "map task_id (map (\<lambda>t. if task_id t = i then t\<lparr>task_done := d\<rparr> else t) ts) = map task_id ts"
    by (induction ts) auto
  then show "unique_ids ts \<Longrightarrow> ?thesis"
    by (simp only: unique_ids_def)
qed

lemma unique_ids_title:
  "unique_ids ts \<Longrightarrow> unique_ids (map (\<lambda>t. if task_id t = i then t\<lparr>task_title := x\<rparr> else t) ts)"
proof -
  have "map task_id (map (\<lambda>t. if task_id t = i then t\<lparr>task_title := x\<rparr> else t) ts) = map task_id ts"
    by (induction ts) auto
  then show "unique_ids ts \<Longrightarrow> ?thesis"
    by (simp only: unique_ids_def)
qed

lemma unique_ids_rows: "distinct (map row_id rs) \<Longrightarrow> unique_ids (map to_task rs)"
  by (simp add: unique_ids_def to_task_def comp_def)

lemma ids_inv_step:
  assumes "ids_inv s" and "supplies_fresh_id e s"
  shows "ids_inv (step e s)"
proof -
  have nil: "unique_ids []" by (simp add: unique_ids_def)
  have "list_all unique_ids (held_lists (handle e s))"
  proof (rule held_handle [where P = unique_ids, OF nil])
    show "list_all unique_ids (held_lists s)"
      using assms(1) by (simp add: ids_inv_def)
    show "unique_ids (\<lparr>task_id = NumId now, task_title = trim (text_st s), task_done = False\<rparr> # tasks s)"
      if "e = AddTask now" for now
      using that assms by (simp add: ids_inv_def held_iff unique_ids_def)
    show "unique_ids (to_task r # tasks s)" if "e = Resolve n (Inserted r)" for n r
      using that assms by (simp add: ids_inv_def held_iff unique_ids_def to_task_def)
    show "unique_ids (map to_task (case d of None \<Rightarrow> [] | Some rs \<Rightarrow> rs))"
      if "e = Resolve n (Selected d)" for n d
      using that assms(2) by (simp add: unique_ids_rows)
  qed (simp_all add: unique_ids_filter unique_ids_done unique_ids_title)
  then show ?thesis
    unfolding ids_inv_def step_def by (rule held_commit [where P = unique_ids, OF nil])
qed

lemma ids_inv_run: "ids_inv s \<Longrightarrow> fresh_run es s \<Longrightarrow> ids_inv (run es s)"
  by (induction es arbitrary: s) (simp_all add: ids_inv_step)

lemma ids_inv_mounted:
  assumes "case stored of None \<Rightarrow> True | Some ts \<Rightarrow> unique_ids ts"
  shows "ids_inv (mounted ready stored f)"
  using assms
  by (auto simp: ids_inv_def held_iff mounted_def persist_effect_def unique_ids_def
        default_tasks_def split: option.splits)

text \<open>
  Claim C4, as amended.  The component keeps the ids of the task list pairwise different
  along every sequence of events in which each id that comes from outside is new: the
  clock reading of a local add and the id of an inserted row are not in the list yet, and
  the rows of a load have pairwise different ids.  This holds from every state whose
  lists (displayed, stored, kept for rollback) have unique ids, in particular from the
  mounted component; in \<open>src/App.jsx\<close> each handler keeps the ids unique under the same
  condition on the clock.
\<close>

theorem unique_ids_preserved:
  "(ids_inv s \<and> fresh_run es s \<longrightarrow> ids_inv (run es s) \<and> unique_ids (tasks (run es s))) \<and>
   ((case stored of None \<Rightarrow> True | Some ts \<Rightarrow> unique_ids ts) \<and>
    fresh_run es (mounted ready stored f) \<longrightarrow>
      unique_ids (tasks (run es (mounted ready stored f)))) \<and>
   (unique_ids (tasks l) \<longrightarrow>
      (NumId now \<notin> set (map task_id (tasks l)) \<longrightarrow> unique_ids (tasks (addTask_local now l))) \<and>
      unique_ids (tasks (toggleTask_local i l)) \<and> unique_ids (tasks (removeTask_local i l)) \<and>
      unique_ids (tasks (clearCompleted_local l)) \<and> unique_ids (tasks (saveEditing_local i l)))"
proof -
  have run_unique: "ids_inv (run es s') \<and> unique_ids (tasks (run es s'))"
    if "ids_inv s'" and "fresh_run es s'" for s'
  proof -
    from that have "ids_inv (run es s')" by (rule ids_inv_run)
    then show ?thesis by (simp add: ids_inv_def held_iff)
  qed
  have a: "ids_inv s \<and> fresh_run es s \<longrightarrow> ids_inv (run es s) \<and> unique_ids (tasks (run es s))"
    using run_unique by simp
  have b: "(case stored of None \<Rightarrow> True | Some ts \<Rightarrow> unique_ids ts) \<and>
      fresh_run es (mounted ready stored f) \<longrightarrow>
        unique_ids (tasks (run es (mounted ready stored f)))"
    using run_unique [OF ids_inv_mounted] by simp
  have c: "unique_ids (tasks l) \<longrightarrow>
      (NumId now \<notin> set (map task_id (tasks l)) \<longrightarrow> unique_ids (tasks (addTask_local now l))) \<and>
      unique_ids (tasks (toggleTask_local i l)) \<and> unique_ids (tasks (removeTask_local i l)) \<and>
      unique_ids (tasks (clearCompleted_local l)) \<and> unique_ids (tasks (saveEditing_local i l))"
  proof
    assume u: "unique_ids (tasks l)"
    have "unique_ids (tasks (addTask_local now l))" if "NumId now \<notin> set (map task_id (tasks l))"
      using u that by (simp add: addTask_local_def Let_def unique_ids_def)
    moreover have "unique_ids (tasks (toggleTask_local i l))"
    proof -
      have "map task_id (tasks (toggleTask_local i l)) = map task_id (tasks l)"
        by (simp add: toggleTask_local_def comp_def if_distrib cong: if_cong)
      then show ?thesis using u by (simp only: unique_ids_def)
    qed
    moreover have "unique_ids (tasks (removeTask_local i l))"
      "unique_ids (tasks (clearCompleted_local l))"
      using u by (simp_all add: removeTask_local_def clearCompleted_local_def unique_ids_filter)
    moreover have "unique_ids (tasks (saveEditing_local i l))"
      using u by (simp add: saveEditing_local_def cancelEditing_local_def Let_def unique_ids_title)
    ultimately show "(NumId now \<notin> set (map task_id (tasks l)) \<longrightarrow>
        unique_ids (tasks (addTask_local now l))) \<and>
      unique_ids (tasks (toggleTask_local i l)) \<and> unique_ids (tasks (removeTask_local i l)) \<and>
      unique_ids (tasks (clearCompleted_local l)) \<and> unique_ids (tasks (saveEditing_local i l))"
      by simp
  qed
  from a b c show ?thesis by blast
qed

theorem unique_ids_preserved_witness:
  "(case Some [task_A, task_B] of None \<Rightarrow> True | Some ts \<Rightarrow> unique_ids ts) \<and>
   fresh_run [SetText [0x78], AddTask 5, AuthChange (Some user_u),
              Resolve 0 (Selected (Some [row_C])), ToggleTask (NumId 7),
              Resolve 0 (Failure [0x65])]
     (mounted True (Some [task_A, task_B]) FILTERS_all) \<and>
   tasks (run [SetText [0x78], AddTask 5, AuthChange (Some user_u),
               Resolve 0 (Selected (Some [row_C])), ToggleTask (NumId 7),
               Resolve 0 (Failure [0x65])]
            (mounted True (Some [task_A, task_B]) FILTERS_all)) = [to_task row_C] \<and>
   unique_ids (tasks (run [SetText [0x78], AddTask 5, AuthChange (Some user_u),
                           Resolve 0 (Selected (Some [row_C])), ToggleTask (NumId 7),
                           Resolve 0 (Failure [0x65])]
                        (mounted True (Some [task_A, task_B]) FILTERS_all)))"
proof -
  let ?es = "[SetText [0x78], AddTask 5, AuthChange (Some user_u),
              Resolve 0 (Selected (Some [row_C])), ToggleTask (NumId 7),
              Resolve 0 (Failure [0x65])]"
  let ?s = "mounted True (Some [task_A, task_B]) FILTERS_all"
  have h1: "case Some [task_A, task_B] of None \<Rightarrow> True | Some ts \<Rightarrow> unique_ids ts"
    by (simp add: unique_ids_def task_A_def task_B_def)
  have h2: "fresh_run ?es ?s"
    by (simp add: run_defs addTask_def toggleTask_def auth_user_def trim_def is_ws_def
          task_A_def task_B_def row_C_def user_u_def)
  have r: "tasks (run ?es ?s) = [to_task row_C]"
    by (simp add: run_defs addTask_def toggleTask_def auth_user_def trim_def is_ws_def
          task_A_def task_B_def row_C_def user_u_def)
  show ?thesis
    using h1 h2 r
      unique_ids_preserved [where es = ?es and stored = "Some [task_A, task_B]" and ready = True
                            and f = FILTERS_all and s = ?s
                            and l = "local_state.truncate anon_AB" and now = 5 and i = "NumId 1"]
    by simp
qed

text \<open>
  Claim C4 as stated fails.  Two local adds at the same clock reading give two tasks with
  that id.  And signed in, a task added before the load has returned is put in front of
  the local list that is still shown: when the backend assigns it the id 1, it shares
  that id with the first default task.
\<close>

theorem unique_ids_counterexample:
  "tasks (run [SetText [0x78], AddTask 1700000000000, SetText [0x79], AddTask 1700000000000]
            (mounted True None FILTERS_all))
     = \<lparr>task_id = NumId 1700000000000, task_title = [0x79], task_done = False\<rparr>
       # \<lparr>task_id = NumId 1700000000000, task_title = [0x78], task_done = False\<rparr>
       # default_tasks \<and>
   \<not> unique_ids
        (tasks (run [SetText [0x78], AddTask 1700000000000, SetText [0x79], AddTask 1700000000000]
                  (mounted True None FILTERS_all))) \<and>
   tasks (run [SetText [0x78], AuthChange (Some user_u), AddTask 0,
               Resolve 1 (Inserted \<lparr>row_id = NumId 1, row_title = [0x78], row_done = Some False\<rparr>)]
            (mounted True None FILTERS_all))
     = \<lparr>task_id = NumId 1, task_title = [0x78], task_done = False\<rparr> # default_tasks \<and>
   \<not> unique_ids
        (tasks (run [SetText [0x78], AuthChange (Some user_u), AddTask 0,
                     Resolve 1 (Inserted \<lparr>row_id = NumId 1, row_title = [0x78],
                                           row_done = Some False\<rparr>)]
                  (mounted True None FILTERS_all)))"
proof -
  have a: "tasks (run [SetText [0x78], AddTask 1700000000000, SetText [0x79], AddTask 1700000000000]
            (mounted True None FILTERS_all))
     = \<lparr>task_id = NumId 1700000000000, task_title = [0x79], task_done = False\<rparr>
       # \<lparr>task_id = NumId 1700000000000, task_title = [0x78], task_done = False\<rparr>
       # default_tasks"
    by (simp add: run_defs addTask_def auth_user_def trim_def is_ws_def)
  have b: "tasks (run [SetText [0x78], AuthChange (Some user_u), AddTask 0,
               Resolve 1 (Inserted \<lparr>row_id = NumId 1, row_title = [0x78], row_done = Some False\<rparr>)]
            (mounted True None FILTERS_all))
     = \<lparr>task_id = NumId 1, task_title = [0x78], task_done = False\<rparr> # default_tasks"
    by (simp add: run_defs addTask_def auth_user_def trim_def is_ws_def user_u_def)
  show ?thesis
    unfolding a b by (simp add: unique_ids_def default_tasks_def)
qed

section \<open>Signing in and out\<close>

text \<open>
  Claim C5, at the failing input.  The component is mounted with the tasks A and B in
  \<open>localStorage\<close>; the user signs in, the load returns the one row C, and the user signs
  out.  While signed in the stored snapshot is still A and B.  In the render after the
  sign-out the persistence effect runs first and, nobody being signed in, stores the list
  in memory, the remote one; the session effect then restores what it reads from
  \<open>localStorage\<close>, which is that remote list.  The displayed list is the remote list, not
  the snapshot from before the sign-in, and the snapshot is gone.
\<close>

theorem sign_out_keeps_remote_list:
  "storage (run [AuthChange (Some user_u), Resolve 0 (Selected (Some [row_C]))] anon_AB)
     = Some [task_A, task_B] \<and>
   tasks (run [AuthChange (Some user_u), Resolve 0 (Selected (Some [row_C]))] anon_AB)
     = [to_task row_C] \<and>
   tasks (run [AuthChange (Some user_u), Resolve 0 (Selected (Some [row_C])), AuthChange None]
            anon_AB) = [to_task row_C] \<and>
   storage (run [AuthChange (Some user_u), Resolve 0 (Selected (Some [row_C])), AuthChange None]
              anon_AB) = Some [to_task row_C] \<and>
   tasks (run [AuthChange (Some user_u), Resolve 0 (Selected (Some [row_C])), AuthChange None]
            anon_AB) \<noteq> [task_A, task_B]"
  by (simp add: anon_AB_eq run_defs user_u_def row_C_def task_A_def task_B_def)

text \<open>
  The other direction, for the record: on a sign-in the session effect issues the select
  ordered by \<open>created_at\<close> for the user's id and leaves the list as it is; rows that
  come back replace the list in the order returned; a failure whose message mentions
  \<open>created_at\<close> issues the select ordered by \<open>id\<close> instead, and any other failure
  leaves the list as it is.
\<close>

lemma sign_in_issues_load:
  assumes "isSupabaseReady s" and "session s = None" and "uid \<noteq> []"
  shows "pending (step (AuthChange (Some uid)) s)
           = pending s @ [(ReqSelect uid Order_created_at, KLoad uid)]"
    and "tasks (step (AuthChange (Some uid)) s) = tasks s"
  using assms
  by (simp_all add: step_def commit_def persist_effect_def session_effect_def truthy_def Let_def
        issue_def split: option.splits)

lemma load_completion:
  "tasks (resume (KLoad uid) (Selected (Some rs)) s) = map to_task rs"
  "tasks (resume KLoadFallback (Selected (Some rs)) s) = map to_task rs"
  "regex_test_ci str_created_at m \<Longrightarrow>
     resume (KLoad uid) (Failure m) s = issue (ReqSelect uid Order_id) KLoadFallback s"
  "\<not> regex_test_ci str_created_at m \<Longrightarrow> tasks (resume (KLoad uid) (Failure m) s) = tasks s"
  "tasks (resume KLoadFallback (Failure m) s) = tasks s"
  by (simp_all add: load_ok_def load_failed_def)

end
